(* ===== verification/Prelude.thy ===== *)
theory Prelude
  imports Main "HOL-Library.Word" "HOL-Library.AList" "HOL-Library.Multiset"
begin

text \<open>
  What every component shares: the machine integers and byte strings of the Go code, Go maps
  as association lists with the laws of a keyed store, the unspecified iteration order of
  \<^verbatim>\<open>range\<close> over a map as an explicit choice sequence, slices that may panic, and two
  small interfaces (keyed stores, machines with an invariant) that the components interpret.
\<close>

named_theorems model_defs "definitions unfolded by the component proofs"

section \<open>Machine integers, bytes and errors\<close>

type_synonym u8 = "8 word"
type_synonym u16 = "16 word"
type_synonym u64 = "64 word"
type_synonym bytes = "u8 list"

text \<open>An \<^verbatim>\<open>error\<close> value is its message; wrapping with \<open>%w\<close> prefixes it.\<close>

type_synonym goerror = string

definition wrapErr :: "string \<Rightarrow> goerror \<Rightarrow> goerror" where
  "wrapErr what e = what @ '': '' @ e"

section \<open>Go maps\<close>

type_synonym ('k, 'v) gomap = "('k \<times> 'v) list"

definition gget :: "('k, 'v) gomap \<Rightarrow> 'k \<Rightarrow> 'v option" where
  "gget m k = map_of m k"

definition gput :: "'k \<Rightarrow> 'v \<Rightarrow> ('k, 'v) gomap \<Rightarrow> ('k, 'v) gomap" where
  "gput k v m = AList.update k v m"

definition gdel :: "'k \<Rightarrow> ('k, 'v) gomap \<Rightarrow> ('k, 'v) gomap" where
  "gdel k m = AList.delete k m"

definition gkeys :: "('k, 'v) gomap \<Rightarrow> 'k list" where
  "gkeys m = remdups (map fst m)"

definition glen :: "('k, 'v) gomap \<Rightarrow> nat" where
  "glen m = length (gkeys m)"

text \<open>Reading an absent key of a Go map gives the zero value of the element type.\<close>

definition ggetz :: "'v \<Rightarrow> ('k, 'v) gomap \<Rightarrow> 'k \<Rightarrow> 'v" where
  "ggetz z m k = (case gget m k of None \<Rightarrow> z | Some v \<Rightarrow> v)"

lemma gget_Nil [simp]: "gget [] k = None"
  by (simp add: gget_def)

lemma gget_gput [simp]: "gget (gput k v m) k' = (if k' = k then Some v else gget m k')"
  by (simp add: gget_def gput_def update_conv')

lemma gget_gdel [simp]: "gget (gdel k m) k' = (if k' = k then None else gget m k')"
  by (simp add: gget_def gdel_def delete_conv')

lemma set_gkeys [simp]: "set (gkeys m) = {k. gget m k \<noteq> None}"
  by (auto simp: gkeys_def gget_def map_of_eq_None_iff)

lemma distinct_gkeys [simp]: "distinct (gkeys m)"
  by (simp add: gkeys_def)

lemma gkeys_Nil [simp]: "gkeys [] = []"
  by (simp add: gkeys_def)

lemma glen_card: "glen m = card {k. gget m k \<noteq> None}"
  by (metis distinct_card distinct_gkeys glen_def set_gkeys)

lemma glen_eq_0 [simp]: "glen m = 0 \<longleftrightarrow> (\<forall>k. gget m k = None)"
proof -
  have "glen m = 0 \<longleftrightarrow> set (gkeys m) = {}"
    by (simp add: glen_def del: set_gkeys)
  then show ?thesis by auto
qed

lemma ggetz_Nil [simp]: "ggetz z [] k = z"
  by (simp add: ggetz_def)

lemma ggetz_gput [simp]: "ggetz z (gput k v m) k' = (if k' = k then v else ggetz z m k')"
  by (simp add: ggetz_def)

lemma ggetz_gdel [simp]: "ggetz z (gdel k m) k' = (if k' = k then z else ggetz z m k')"
  by (simp add: ggetz_def)

section \<open>The keyed-store interface\<close>

text \<open>
  What a client relies on when it keeps values under keys: a lookup sees the last write, a
  deletion removes one key only. Go maps and the SQLite room table both provide it.
\<close>

locale keyed_store =
  fixes lookup :: "'m \<Rightarrow> 'k \<Rightarrow> 'v option"
    and insert_key :: "'k \<Rightarrow> 'v \<Rightarrow> 'm \<Rightarrow> 'm"
    and delete_key :: "'k \<Rightarrow> 'm \<Rightarrow> 'm"
  assumes lookup_insert: "lookup (insert_key k v m) k' = (if k' = k then Some v else lookup m k')"
    and lookup_delete: "lookup (delete_key k m) k' = (if k' = k then None else lookup m k')"
begin

lemma insert_then_delete: "lookup (delete_key k (insert_key k v m)) = lookup (delete_key k m)"
  by (rule ext) (simp add: lookup_insert lookup_delete)

lemma insert_overwrites: "lookup (insert_key k v (insert_key k w m)) = lookup (insert_key k v m)"
  by (rule ext) (simp add: lookup_insert)

lemma insert_commute:
  "k \<noteq> k' \<Longrightarrow> lookup (insert_key k v (insert_key k' w m)) = lookup (insert_key k' w (insert_key k v m))"
  by (rule ext) (simp add: lookup_insert)

lemma lookup_delete_many:
  "lookup (fold delete_key ks m) k = (if k \<in> set ks then None else lookup m k)"
  by (induction ks arbitrary: m) (auto simp: lookup_delete)

lemma lookup_insert_many:
  "lookup (fold (\<lambda>(k, v). insert_key k v) kvs m) k =
     (case map_of (rev kvs) k of None \<Rightarrow> lookup m k | Some v \<Rightarrow> Some v)"
proof (induction kvs arbitrary: m)
  case Nil
  then show ?case by simp
next
  case (Cons kv kvs)
  obtain k' v' where kv: "kv = (k', v')" by (cases kv)
  have "lookup (fold (\<lambda>(k, v). insert_key k v) (kv # kvs) m) k =
      (case map_of (rev kvs) k of None \<Rightarrow> lookup (insert_key k' v' m) k | Some v \<Rightarrow> Some v)"
    by (simp add: kv Cons.IH)
  then show ?case
    by (simp add: kv lookup_insert map_add_def split: option.splits)
qed

end

interpretation gm: keyed_store gget gput gdel
  by unfold_locales simp_all

section \<open>Iteration order of a map\<close>

text \<open>
  \<^verbatim>\<open>range\<close> over a Go map visits every entry once, in an order the language leaves open.
  \<open>pick ns xs\<close> visits \<open>xs\<close> in the order the choice sequence \<open>ns\<close> selects: every choice
  sequence gives a permutation, and every permutation is given by some choice sequence.
\<close>

fun pick :: "nat list \<Rightarrow> 'a list \<Rightarrow> 'a list" where
  "pick _ [] = []"
| "pick [] xs = xs"
| "pick (n # ns) (x # xs) =
     (let ys = x # xs; i = n mod length ys
      in ys ! i # pick ns (take i ys @ drop (Suc i) ys))"

lemma mset_remove_nth:
  "i < length xs \<Longrightarrow> add_mset (xs ! i) (mset (take i xs @ drop (Suc i) xs)) = mset xs"
  by (metis id_take_nth_drop mset.simps(2) mset_append union_mset_add_mset_right)

lemma mset_pick [simp]: "mset (pick ns xs) = mset xs"
proof (induction ns xs rule: pick.induct)
  case (3 n ns x xs)
  let ?ys = "x # xs"
  let ?i = "n mod length ?ys"
  have "?i < length ?ys"
    by (simp del: length_Cons)
  then show ?case
    using 3 [OF refl refl] mset_remove_nth [of ?i ?ys] by (simp add: Let_def)
qed simp_all

lemma set_pick [simp]: "set (pick ns xs) = set xs"
  using mset_pick [of ns xs] by (metis set_mset_mset)

lemma length_pick [simp]: "length (pick ns xs) = length xs"
  using mset_pick [of ns xs] by (metis size_mset)

lemma distinct_pick [simp]: "distinct (pick ns xs) = distinct xs"
  using mset_pick [of ns xs] by (metis mset_eq_imp_distinct_iff)

lemma pick_complete: "mset ys = mset xs \<Longrightarrow> \<exists>ns. pick ns xs = ys"
proof (induction ys arbitrary: xs)
  case Nil
  then show ?case by auto
next
  case (Cons y ys)
  then have "y \<in> set xs" by (metis list.set_intros(1) set_mset_mset)
  then obtain i where i: "i < length xs" "xs ! i = y" by (auto simp: in_set_conv_nth)
  let ?rest = "take i xs @ drop (Suc i) xs"
  have "add_mset y (mset ?rest) = mset xs"
    using mset_remove_nth [OF i(1)] i(2) by simp
  with Cons.prems have "mset ys = mset ?rest"
    by (metis add_mset_add_mset_same_iff mset.simps(2))
  from Cons.IH [OF this] obtain ns where ns: "pick ns ?rest = ys" by blast
  from i obtain x xs' where xs: "xs = x # xs'" by (cases xs) auto
  have "pick (i # ns) xs = y # ys"
    using i ns by (simp add: xs Let_def)
  then show ?case by blast
qed

section \<open>Slices\<close>

text \<open>
  \<^verbatim>\<open>s[i:j]\<close> on a string or on a slice whose capacity is its length: \<open>None\<close> is the run-time
  panic for bounds out of range.
\<close>

definition goslice :: "'a list \<Rightarrow> nat \<Rightarrow> nat \<Rightarrow> 'a list option" where
  "goslice xs i j = (if i \<le> j \<and> j \<le> length xs then Some (take (j - i) (drop i xs)) else None)"

lemma goslice_Some_iff [simp]:
  "goslice xs i j = Some ys \<longleftrightarrow> i \<le> j \<and> j \<le> length xs \<and> ys = take (j - i) (drop i xs)"
  by (auto simp: goslice_def)

lemma goslice_None_iff [simp]: "goslice xs i j = None \<longleftrightarrow> \<not> (i \<le> j \<and> j \<le> length xs)"
  by (auto simp: goslice_def)

section \<open>Machines with an invariant\<close>

text \<open>
  A component driven by events: each event is a total step function, and an invariant that every
  event keeps holds along every run.
\<close>

locale event_machine =
  fixes step :: "'e \<Rightarrow> 's \<Rightarrow> 's"
    and inv :: "'s \<Rightarrow> bool"
  assumes step_inv: "inv s \<Longrightarrow> inv (step e s)"
begin

lemma run_inv: "inv s \<Longrightarrow> inv (fold step es s)"
  by (induction es arbitrary: s) (auto intro: step_inv)

lemma run_prefix_inv: "inv s \<Longrightarrow> inv (fold step (take n es) s)"
  by (rule run_inv)

end

text \<open>The same for a step relation, where several goroutines may move.\<close>

locale relation_machine =
  fixes init :: "'s \<Rightarrow> bool"
    and step :: "'s \<Rightarrow> 's \<Rightarrow> bool"
    and inv :: "'s \<Rightarrow> bool"
  assumes init_inv: "init s \<Longrightarrow> inv s"
    and rel_inv: "inv s \<Longrightarrow> step s t \<Longrightarrow> inv t"
begin

lemma reach_inv: "init s \<Longrightarrow> step\<^sup>*\<^sup>* s t \<Longrightarrow> inv t"
  by (rotate_tac, induction rule: rtranclp_induct) (auto intro: init_inv rel_inv)

end

section \<open>Code that may panic\<close>

text \<open>
  A function that may panic returns an \<open>option\<close>, and \<open>None\<close> is the panic. \<open>goes P r\<close> says that \<open>r\<close> does not
  panic and its result satisfies \<open>P\<close>; the rules push it through the code backwards.
\<close>

definition goes :: "('a \<Rightarrow> bool) \<Rightarrow> 'a option \<Rightarrow> bool" where
  "goes P r = (case r of None \<Rightarrow> False | Some x \<Rightarrow> P x)"

lemma goes_Some [simp]: "goes P (Some x) = P x"
  by (simp add: goes_def)

lemma goes_None [simp]: "\<not> goes P None"
  by (simp add: goes_def)

lemma goes_bind [simp]: "goes P (Option.bind r f) = goes (\<lambda>x. goes P (f x)) r"
  by (cases r) simp_all

lemma goes_iff: "goes P r \<longleftrightarrow> (\<exists>x. r = Some x \<and> P x)"
  by (cases r) simp_all

lemma goes_mono: "goes P r \<Longrightarrow> (\<And>x. P x \<Longrightarrow> Q x) \<Longrightarrow> goes Q r"
  by (cases r) simp_all

lemma goes_map [simp]: "goes P (map_option f r) = goes (\<lambda>x. P (f x)) r"
  by (cases r) simp_all

text \<open>A loop whose body may panic.\<close>

fun foldM :: "('a \<Rightarrow> 's \<Rightarrow> 's option) \<Rightarrow> 'a list \<Rightarrow> 's \<Rightarrow> 's option" where
  "foldM f [] s = Some s"
| "foldM f (x # xs) s = Option.bind (f x s) (foldM f xs)"

lemma goes_foldM:
  "P s \<Longrightarrow> (\<And>x s. x \<in> set xs \<Longrightarrow> P s \<Longrightarrow> goes P (f x s)) \<Longrightarrow> goes P (foldM f xs s)"
proof (induction xs arbitrary: s)
  case (Cons x xs)
  have "goes P (f x s)" using Cons.prems by simp
  then show ?case using Cons.IH Cons.prems(2) by (auto elim: goes_mono)
qed simp

text \<open>
  A machine whose steps may panic, driven by events that meet a condition: no run of such events panics,
  and the invariant holds at every point of it.
\<close>

locale panic_machine =
  fixes pstep :: "'e \<Rightarrow> 's \<Rightarrow> 's option"
    and allowed :: "'e \<Rightarrow> bool"
    and inv :: "'s \<Rightarrow> bool"
  assumes step_goes: "inv s \<Longrightarrow> allowed e \<Longrightarrow> goes inv (pstep e s)"
begin

lemma run_goes: "inv s \<Longrightarrow> list_all allowed es \<Longrightarrow> goes inv (foldM pstep es s)"
  by (rule goes_foldM) (auto simp: list_all_iff intro: step_goes)

lemma run_ends:
  assumes "inv s" and "list_all allowed es"
  obtains t where "foldM pstep es s = Some t" and "inv t"
  using run_goes [OF assms] by (auto simp: goes_iff)

end

end
