(* ===== verification/GoText.thy ===== *)
theory GoText
  imports Prelude "HOL-Library.Char_ord" "HOL-Library.Sublist"
begin

text \<open>
  The part of Go's \<^verbatim>\<open>strings\<close>, \<^verbatim>\<open>strconv\<close> and \<^verbatim>\<open>fmt\<close> the program uses, on strings as byte
  sequences (an Isabelle \<^typ>\<open>char\<close> is a byte): prefixes, decimal printing and parsing with the
  64-bit range check, splitting, and Unicode white space recognised by its UTF-8 bytes.
\<close>

section \<open>Prefixes and splitting\<close>

definition hasPrefix :: "string \<Rightarrow> string \<Rightarrow> bool" where
  "hasPrefix s p \<longleftrightarrow> take (length p) s = p"

definition trimPrefix :: "string \<Rightarrow> string \<Rightarrow> string" where
  "trimPrefix s p = (if hasPrefix s p then drop (length p) s else s)"

lemma hasPrefix_iff: "hasPrefix s p \<longleftrightarrow> (\<exists>r. s = p @ r)"
  unfolding hasPrefix_def by (metis append_eq_conv_conj append_take_drop_id)

lemma hasPrefix_append [simp]: "hasPrefix (p @ r) p"
  by (simp add: hasPrefix_def)

lemma trimPrefix_append [simp]: "trimPrefix (p @ r) p = r"
  by (simp add: trimPrefix_def)

text \<open>\<^verbatim>\<open>strings.Split\<close> with a one-byte separator.\<close>

fun splitOn :: "char \<Rightarrow> string \<Rightarrow> string list" where
  "splitOn sep [] = [[]]"
| "splitOn sep (c # cs) =
     (if c = sep then [] # splitOn sep cs
      else (case splitOn sep cs of [] \<Rightarrow> [[c]] | w # ws \<Rightarrow> (c # w) # ws))"

fun joinWith :: "string \<Rightarrow> string list \<Rightarrow> string" where
  "joinWith sep [] = []"
| "joinWith sep [w] = w"
| "joinWith sep (w # ws) = w @ sep @ joinWith sep ws"

lemma splitOn_nonempty [simp]: "splitOn sep s \<noteq> []"
  by (cases s) (auto split: list.splits)

lemma splitOn_no_sep: "w \<in> set (splitOn sep s) \<Longrightarrow> sep \<notin> set w"
  by (induction s arbitrary: w) (auto split: list.splits if_splits)

lemma joinWith_Cons: "ws \<noteq> [] \<Longrightarrow> joinWith sep (w # ws) = w @ sep @ joinWith sep ws"
  by (cases ws) simp_all

lemma join_splitOn: "joinWith [sep] (splitOn sep s) = s"
proof (induction s)
  case Nil
  then show ?case by simp
next
  case (Cons c cs)
  obtain w ws where split: "splitOn sep cs = w # ws"
    by (cases "splitOn sep cs") simp_all
  with Cons show ?case by (cases ws) (simp_all add: joinWith_Cons)
qed

lemma splitOn_append_sep:
  "sep \<notin> set w \<Longrightarrow> splitOn sep (w @ sep # s) = w # splitOn sep s"
  by (induction w) auto

lemma splitOn_word: "sep \<notin> set w \<Longrightarrow> splitOn sep w = [w]"
  by (induction w) auto

lemma splitOn_join:
  "ws \<noteq> [] \<Longrightarrow> (\<And>w. w \<in> set ws \<Longrightarrow> sep \<notin> set w) \<Longrightarrow> splitOn sep (joinWith [sep] ws) = ws"
proof (induction ws rule: induct_list012)
  case (3 w w' ws)
  then show ?case by (simp add: splitOn_append_sep)
qed (auto simp: splitOn_word)

section \<open>Decimal numbers\<close>

definition digitChar :: "nat \<Rightarrow> char" where
  "digitChar d = char_of (48 + d)"

definition digitVal :: "char \<Rightarrow> nat option" where
  "digitVal c = (let n = of_char c in if 48 \<le> n \<and> n \<le> 57 then Some (n - 48) else None)"

lemma digitVal_digitChar [simp]: "d < 10 \<Longrightarrow> digitVal (digitChar d) = Some d"
  by (simp add: digitVal_def digitChar_def Let_def)

text \<open>\<^verbatim>\<open>%d\<close> of an unsigned value.\<close>

fun formatNat :: "nat \<Rightarrow> string" where
  "formatNat n = (if n < 10 then [digitChar n] else formatNat (n div 10) @ [digitChar (n mod 10)])"

declare formatNat.simps [simp del]

abbreviation formatUint :: "u64 \<Rightarrow> string" where
  "formatUint v \<equiv> formatNat (unat v)"

definition formatInt :: "int \<Rightarrow> string" where
  "formatInt i = (if i < 0 then CHR ''-'' # formatNat (nat (- i)) else formatNat (nat i))"

fun parseDigits :: "nat \<Rightarrow> string \<Rightarrow> nat option" where
  "parseDigits acc [] = Some acc"
| "parseDigits acc (c # cs) =
     (case digitVal c of None \<Rightarrow> None | Some d \<Rightarrow> parseDigits (10 * acc + d) cs)"

text \<open>\<^verbatim>\<open>strconv.ParseUint(s, 10, 64)\<close>; \<open>None\<close> is a syntax or range error.\<close>

definition parseUint64 :: "string \<Rightarrow> u64 option" where
  "parseUint64 s =
     (if s = [] then None
      else case parseDigits 0 s of
        None \<Rightarrow> None
      | Some n \<Rightarrow> if n < 2 ^ 64 then Some (of_nat n) else None)"

lemma parseDigits_append:
  "parseDigits acc (s @ t) = (case parseDigits acc s of None \<Rightarrow> None | Some a \<Rightarrow> parseDigits a t)"
  by (induction s arbitrary: acc) (auto split: option.splits)

lemma parseDigits_formatNat: "parseDigits 0 (formatNat n) = Some n"
proof (induction n rule: formatNat.induct)
  case (1 n)
  show ?case
  proof (cases "n < 10")
    case True
    then show ?thesis by (simp add: formatNat.simps [of n])
  next
    case False
    with 1 show ?thesis
      by (simp add: formatNat.simps [of n] parseDigits_append)
  qed
qed

lemma formatNat_nonempty [simp]: "formatNat n \<noteq> []"
  by (subst formatNat.simps) simp

lemma formatNat_inject [simp]: "formatNat m = formatNat n \<longleftrightarrow> m = n"
  by (metis option.inject parseDigits_formatNat)

lemma unat_eq_u64 [simp]: "unat (u :: u64) = unat v \<longleftrightarrow> u = v"
  by (simp add: word_unat_eq_iff)

lemma formatNat_digits: "c \<in> set (formatNat n) \<Longrightarrow> digitVal c \<noteq> None"
proof (induction n rule: formatNat.induct)
  case (1 n)
  then show ?case
    by (cases "n < 10") (auto simp: formatNat.simps [of n])
qed

lemma parse_formatUint [simp]: "parseUint64 (formatUint v) = Some v"
proof -
  have "unat v < 2 ^ 64" using unsigned_less [of v] by simp
  then show ?thesis by (simp add: parseUint64_def parseDigits_formatNat)
qed

lemma parseUint64_bound: "parseUint64 s = Some v \<Longrightarrow> parseDigits 0 s = Some (unat v)"
  by (auto simp: parseUint64_def unat_of_nat split: if_splits option.splits)

section \<open>White space\<close>

text \<open>
  The code points for which \<^verbatim>\<open>unicode.IsSpace\<close> holds, as UTF-8. Lead bytes never occur inside
  an encoded rune, so looking for these byte sequences finds exactly the white space runes.
\<close>

definition asciiSpaces :: "string list" where
  "asciiSpaces = map (\<lambda>n. [char_of (n :: nat)]) [9, 10, 11, 12, 13, 32]"

definition twoByteSpaces :: "string list" where
  "twoByteSpaces = [[CHR 0xC2, CHR 0x85], [CHR 0xC2, CHR 0xA0]]"

definition threeByteSpaces :: "string list" where
  "threeByteSpaces =
     [CHR 0xE1, CHR 0x9A, CHR 0x80]
     # map (\<lambda>n. [CHR 0xE2, CHR 0x80, char_of (n :: nat)]) ([128..<139] @ [168, 169, 175])
     @ [[CHR 0xE2, CHR 0x81, CHR 0x9F], [CHR 0xE3, CHR 0x80, CHR 0x80]]"

text \<open>The length of the white space rune a string starts with, 0 if it starts with another.\<close>

definition spaceLen :: "string \<Rightarrow> nat" where
  "spaceLen s =
     (if take 1 s \<in> set asciiSpaces then 1
      else if take 2 s \<in> set twoByteSpaces then 2
      else if take 3 s \<in> set threeByteSpaces then 3 else 0)"

lemma take_mem_length:
  "take k s \<in> set ws \<Longrightarrow> list_all (\<lambda>w. length w = k) ws \<Longrightarrow> k \<le> length s"
  by (auto simp: list_all_iff dest!: bspec)

lemma space_lengths [simp]:
  "list_all (\<lambda>w. length w = 1) asciiSpaces"
  "list_all (\<lambda>w. length w = 2) twoByteSpaces"
  "list_all (\<lambda>w. length w = 3) threeByteSpaces"
  by (simp_all add: asciiSpaces_def twoByteSpaces_def threeByteSpaces_def list_all_iff)

lemma spaceLen_le: "spaceLen s \<le> length s"
  unfolding spaceLen_def
  using take_mem_length [OF _ space_lengths(1)] take_mem_length [OF _ space_lengths(2)]
    take_mem_length [OF _ space_lengths(3)]
  by simp

lemma spaceLen_Nil [simp]: "spaceLen [] = 0"
  using spaceLen_le [of "[]"] by simp

text \<open>\<^verbatim>\<open>strings.TrimSpace\<close>.\<close>

function trimLeft :: "string \<Rightarrow> string" where
  "trimLeft s = (if spaceLen s = 0 then s else trimLeft (drop (spaceLen s) s))"
  by pat_completeness auto
termination
proof (relation "measure length", goal_cases)
  case 1
  then show ?case by simp
next
  case (2 s)
  then show ?case using spaceLen_le [of s] by simp
qed

declare trimLeft.simps [simp del]

definition lastSpaceLen :: "string \<Rightarrow> nat" where
  "lastSpaceLen s =
     (if take 1 (rev s) \<in> set (map rev asciiSpaces) then 1
      else if take 2 (rev s) \<in> set (map rev twoByteSpaces) then 2
      else if take 3 (rev s) \<in> set (map rev threeByteSpaces) then 3 else 0)"

lemma rev_space_lengths [simp]:
  "list_all (\<lambda>w. length w = 1) (map rev asciiSpaces)"
  "list_all (\<lambda>w. length w = 2) (map rev twoByteSpaces)"
  "list_all (\<lambda>w. length w = 3) (map rev threeByteSpaces)"
  using space_lengths by (simp_all add: list_all_iff)

lemma lastSpaceLen_le: "lastSpaceLen s \<le> length s"
proof -
  have "lastSpaceLen s \<le> length (rev s)"
    unfolding lastSpaceLen_def
    using take_mem_length [OF _ rev_space_lengths(1), of "rev s"]
      take_mem_length [OF _ rev_space_lengths(2), of "rev s"]
      take_mem_length [OF _ rev_space_lengths(3), of "rev s"]
    by simp
  then show ?thesis by simp
qed

function trimRight :: "string \<Rightarrow> string" where
  "trimRight s = (if lastSpaceLen s = 0 then s else trimRight (take (length s - lastSpaceLen s) s))"
  by pat_completeness auto
termination
proof (relation "measure length", goal_cases)
  case 1
  then show ?case by simp
next
  case (2 s)
  then show ?case using lastSpaceLen_le [of s] by simp
qed

declare trimRight.simps [simp del]

definition trimSpace :: "string \<Rightarrow> string" where
  "trimSpace s = trimRight (trimLeft s)"

text \<open>\<^verbatim>\<open>strings.Fields\<close>: the maximal runs without white space; \<open>cur\<close> is the current run, reversed.\<close>

function fieldsFrom :: "string \<Rightarrow> string \<Rightarrow> string list" where
  "fieldsFrom cur [] = (if cur = [] then [] else [rev cur])"
| "fieldsFrom cur (c # cs) =
     (let k = spaceLen (c # cs) in
      if k = 0 then fieldsFrom (c # cur) cs
      else (if cur = [] then [] else [rev cur]) @ fieldsFrom [] (drop k (c # cs)))"
  by pat_completeness auto
termination
proof (relation "measure (\<lambda>(cur, s). length s)", goal_cases)
  case 1
  then show ?case by simp
next
  case (2 cur c cs k)
  then show ?case by simp
next
  case (3 cur c cs k)
  then show ?case by simp
qed

abbreviation fields :: "string \<Rightarrow> string list" where
  "fields s \<equiv> fieldsFrom [] s"

lemma fieldsFrom_nonempty: "w \<in> set (fieldsFrom cur s) \<Longrightarrow> w \<noteq> []"
  by (induction cur s rule: fieldsFrom.induct) (auto simp: Let_def split: if_splits)

text \<open>ASCII case mapping, the instance of the case tables used in the examples.\<close>

definition asciiLowerChar :: "char \<Rightarrow> char" where
  "asciiLowerChar c = (let n = of_char c :: nat in if 65 \<le> n \<and> n \<le> 90 then char_of (n + 32) else c)"

definition asciiLower :: "string \<Rightarrow> string" where
  "asciiLower s = map asciiLowerChar s"

end
