(* ===== verification/Config.thy ===== *)
theory Config
  imports GoText
begin

text \<open>
  \<^verbatim>\<open>pkg/config/config.go\<close>: defaults, the YAML file (whose parser is a parameter), the environment
  variables laid over it, and the validation. \<open>getenv\<close> gives \<open>''''\<close> for an unset variable, as
  \<^verbatim>\<open>os.Getenv\<close> does.
\<close>

record discordConfig =
  dcBotToken :: string
  dcBotTokens :: "string list"
  dcGuildID :: string

record livekitConfig =
  lcURL :: string
  lcAPIKey :: string
  lcAPISecret :: string

record matrixConfig =
  mcHomeserverURL :: string
  mcASToken :: string
  mcServerName :: string
  mcLKJWTService :: string
  mcAdminUsers :: "string list"

record sidecarConfig =
  scDir :: string
  scSocketPath :: string

record config =
  cfgDiscord :: discordConfig
  cfgLiveKit :: livekitConfig
  cfgMatrix :: matrixConfig
  cfgSidecar :: sidecarConfig
  cfgLogLevel :: string
  cfgDatabase :: string

definition Tokens :: "discordConfig \<Rightarrow> string list" where
  "Tokens d =
     (if length (dcBotTokens d) > 0 then dcBotTokens d
      else if dcBotToken d \<noteq> '''' then [dcBotToken d]
      else [])"

definition Validate :: "config \<Rightarrow> goerror option" where
  "Validate c =
     (if length (Tokens (cfgDiscord c)) = 0 then Some ''discord.bot_token or discord.bot_tokens is required''
      else if dcGuildID (cfgDiscord c) = '''' then Some ''discord.guild_id is required''
      else if lcURL (cfgLiveKit c) = '''' then Some ''livekit.url is required''
      else if lcAPIKey (cfgLiveKit c) = '''' then Some ''livekit.api_key is required''
      else if lcAPISecret (cfgLiveKit c) = '''' then Some ''livekit.api_secret is required''
      else if mcHomeserverURL (cfgMatrix c) = '''' then Some ''matrix.homeserver_url is required''
      else if mcASToken (cfgMatrix c) = '''' then Some ''matrix.as_token is required''
      else if mcServerName (cfgMatrix c) = '''' then Some ''matrix.server_name is required''
      else if mcLKJWTService (cfgMatrix c) = '''' then Some ''matrix.lk_jwt_service_url is required''
      else None)"

definition envOverride :: "(string \<Rightarrow> string) \<Rightarrow> string \<Rightarrow> string \<Rightarrow> string" where
  "envOverride getenv key dst = (let v = getenv key in if v \<noteq> '''' then v else dst)"

definition defaultConfig :: config where
  "defaultConfig = \<lparr>
     cfgDiscord = \<lparr>dcBotToken = '''', dcBotTokens = [], dcGuildID = ''''\<rparr>,
     cfgLiveKit = \<lparr>lcURL = '''', lcAPIKey = '''', lcAPISecret = ''''\<rparr>,
     cfgMatrix = \<lparr>mcHomeserverURL = '''', mcASToken = '''', mcServerName = '''',
                  mcLKJWTService = '''', mcAdminUsers = []\<rparr>,
     cfgSidecar = \<lparr>scDir = ''sidecar'', scSocketPath = ''/tmp/discord-voice-bridge.sock''\<rparr>,
     cfgLogLevel = '''',
     cfgDatabase = ''bridge.db''\<rparr>"

text \<open>The environment variables, in the code's order; the two lists come last.\<close>

definition overlayEnv :: "(string \<Rightarrow> string) \<Rightarrow> config \<Rightarrow> config" where
  "overlayEnv getenv cfg =
     (let d = cfgDiscord cfg; l = cfgLiveKit cfg; m = cfgMatrix cfg; s = cfgSidecar cfg;
          admins = getenv ''MATRIX_ADMIN_USERS'';
          tokens = getenv ''DISCORD_BOT_TOKENS''
      in \<lparr>cfgDiscord =
           \<lparr>dcBotToken = envOverride getenv ''DISCORD_BOT_TOKEN'' (dcBotToken d),
            dcBotTokens = (if tokens \<noteq> '''' then splitOn (CHR '','') tokens else dcBotTokens d),
            dcGuildID = envOverride getenv ''DISCORD_GUILD_ID'' (dcGuildID d)\<rparr>,
         cfgLiveKit =
           \<lparr>lcURL = envOverride getenv ''LIVEKIT_URL'' (lcURL l),
            lcAPIKey = envOverride getenv ''LIVEKIT_API_KEY'' (lcAPIKey l),
            lcAPISecret = envOverride getenv ''LIVEKIT_API_SECRET'' (lcAPISecret l)\<rparr>,
         cfgMatrix =
           \<lparr>mcHomeserverURL = envOverride getenv ''MATRIX_HOMESERVER_URL'' (mcHomeserverURL m),
            mcASToken = envOverride getenv ''MATRIX_AS_TOKEN'' (mcASToken m),
            mcServerName = envOverride getenv ''MATRIX_SERVER_NAME'' (mcServerName m),
            mcLKJWTService = envOverride getenv ''LK_JWT_SERVICE_URL'' (mcLKJWTService m),
            mcAdminUsers = (if admins \<noteq> '''' then splitOn (CHR '','') admins else mcAdminUsers m)\<rparr>,
         cfgSidecar =
           \<lparr>scDir = envOverride getenv ''SIDECAR_DIR'' (scDir s),
            scSocketPath = envOverride getenv ''IPC_SOCKET_PATH'' (scSocketPath s)\<rparr>,
         cfgLogLevel = envOverride getenv ''BRIDGE_LOG_LEVEL'' (cfgLogLevel cfg),
         cfgDatabase = envOverride getenv ''BRIDGE_DATABASE'' (cfgDatabase cfg)\<rparr>)"

text \<open>What \<^verbatim>\<open>os.ReadFile\<close> finds.\<close>

datatype fileResult = FileData bytes | FileNotExist | FileError goerror

definition Load ::
  "(bytes \<Rightarrow> config \<Rightarrow> goerror + config) \<Rightarrow> (string \<Rightarrow> string) \<Rightarrow> string \<Rightarrow> fileResult
    \<Rightarrow> goerror + config" where
  "Load yamlUnmarshal getenv path file =
     (case file of
        FileError e \<Rightarrow> Inl (wrapErr (''read config '' @ path) e)
      | _ \<Rightarrow>
        (case (case file of FileData bs \<Rightarrow> yamlUnmarshal bs defaultConfig | _ \<Rightarrow> Inr defaultConfig) of
           Inl e \<Rightarrow> Inl (wrapErr (''parse config '' @ path) e)
         | Inr cfg0 \<Rightarrow>
             let cfg = overlayEnv getenv cfg0 in
             (case Validate cfg of Some e \<Rightarrow> Inl e | None \<Rightarrow> Inr cfg)))"

section \<open>Properties\<close>

text \<open>What the rest of the program assumes of its configuration.\<close>

definition usable :: "config \<Rightarrow> bool" where
  "usable c \<longleftrightarrow>
     Tokens (cfgDiscord c) \<noteq> [] \<and> dcGuildID (cfgDiscord c) \<noteq> '''' \<and>
     lcURL (cfgLiveKit c) \<noteq> '''' \<and> lcAPIKey (cfgLiveKit c) \<noteq> '''' \<and> lcAPISecret (cfgLiveKit c) \<noteq> '''' \<and>
     mcHomeserverURL (cfgMatrix c) \<noteq> '''' \<and> mcASToken (cfgMatrix c) \<noteq> '''' \<and>
     mcServerName (cfgMatrix c) \<noteq> '''' \<and> mcLKJWTService (cfgMatrix c) \<noteq> ''''"

lemma Validate_None_iff: "Validate c = None \<longleftrightarrow> usable c"
  by (simp add: Validate_def usable_def)

text \<open>The configuration before the environment is laid over it.\<close>

definition fileConfig :: "(bytes \<Rightarrow> config \<Rightarrow> goerror + config) \<Rightarrow> fileResult \<Rightarrow> (goerror + config)" where
  "fileConfig yamlUnmarshal file =
     (case file of FileError e \<Rightarrow> Inl e | FileNotExist \<Rightarrow> Inr defaultConfig
        | FileData bs \<Rightarrow> yamlUnmarshal bs defaultConfig)"

lemma Load_Inr_iff:
  "Load y getenv path file = Inr cfg \<longleftrightarrow>
   (\<exists>c0. fileConfig y file = Inr c0 \<and> cfg = overlayEnv getenv c0 \<and> usable cfg)"
  by (auto simp: Load_def fileConfig_def Let_def Validate_None_iff
      split: fileResult.splits sum.splits option.splits)
    (metis Validate_None_iff option.distinct(1))+

text \<open>
  \<^verbatim>\<open>Load\<close> returns a configuration exactly when the file is absent or parses and the result
  with the environment laid over it has all nine required settings; what it returns is that result.
\<close>

theorem config_load_iff:
  "(Load yamlUnmarshal getenv path file = Inr cfg) =
     (\<exists>c0. (case file of FileError e \<Rightarrow> False | FileNotExist \<Rightarrow> c0 = defaultConfig
              | FileData bs \<Rightarrow> yamlUnmarshal bs defaultConfig = Inr c0) \<and>
           cfg = overlayEnv getenv c0 \<and> usable cfg)"
  by (auto simp: Load_Inr_iff fileConfig_def split: fileResult.splits)

text \<open>
  Precedence of the bot tokens in a loaded configuration: \<^verbatim>\<open>DISCORD_BOT_TOKENS\<close> over the file's
  list, that list over \<^verbatim>\<open>DISCORD_BOT_TOKEN\<close>, and this over the file's single token. An environment
  list is taken as written: its parts are not trimmed and may be empty.
\<close>

theorem config_token_precedence:
  assumes "Load yamlUnmarshal getenv path file = Inr cfg" and "fileConfig yamlUnmarshal file = Inr c0"
  shows "Tokens (cfgDiscord cfg) =
    (if getenv ''DISCORD_BOT_TOKENS'' \<noteq> '''' then splitOn (CHR '','') (getenv ''DISCORD_BOT_TOKENS'')
     else if dcBotTokens (cfgDiscord c0) \<noteq> [] then dcBotTokens (cfgDiscord c0)
     else if getenv ''DISCORD_BOT_TOKEN'' \<noteq> '''' then [getenv ''DISCORD_BOT_TOKEN'']
     else [dcBotToken (cfgDiscord c0)])"
proof -
  have cfg: "cfg = overlayEnv getenv c0" and "usable cfg"
    using assms by (auto simp: Load_Inr_iff)
  then have "Tokens (cfgDiscord (overlayEnv getenv c0)) \<noteq> []" by (simp add: usable_def)
  then show ?thesis
    by (auto simp: cfg Tokens_def overlayEnv_def envOverride_def Let_def split: if_splits)
qed

definition exampleEnv :: "string \<Rightarrow> string" where
  "exampleEnv key = (if key = ''DISCORD_BOT_TOKENS'' then ''a,'' else ''x'')"

theorem config_token_precedence_witness:
  "Tokens (cfgDiscord (overlayEnv exampleEnv defaultConfig)) = [''a'', '''']"
proof -
  have f: "fileConfig (\<lambda>_ c. Inr c) FileNotExist = Inr defaultConfig"
    by (simp add: fileConfig_def)
  have "usable (overlayEnv exampleEnv defaultConfig)"
    by (simp add: usable_def overlayEnv_def Let_def exampleEnv_def envOverride_def Tokens_def)
  then have l: "Load (\<lambda>_ c. Inr c) exampleEnv ''config.yaml'' FileNotExist =
      Inr (overlayEnv exampleEnv defaultConfig)"
    using f by (auto simp: Load_Inr_iff)
  show ?thesis
    using config_token_precedence [OF l f] by (simp add: exampleEnv_def)
qed

end
