(* ===== verification/Ipc.thy ===== *)
theory Ipc
  imports GoText
begin

text \<open>
  \<^verbatim>\<open>pkg/ipc/protocol.go\<close>: the binary frames between the Go bridge and a Node.js sidecar
  (11-byte header, then the payload), the connection with its deadlines and the two stream
  operations \<^verbatim>\<open>ReadMessage\<close> and \<^verbatim>\<open>WriteMessage\<close>, and the command line environment of a sidecar.
  A connection is modelled by the bytes the peer has sent and will send (with what ends that
  stream) and the bytes the kernel has accepted from this side.
\<close>

section \<open>Little-endian integers\<close>

fun putLE :: "nat \<Rightarrow> nat \<Rightarrow> bytes" where
  "putLE 0 v = []"
| "putLE (Suc n) v = of_nat v # putLE n (v div 256)"

fun getLE :: "bytes \<Rightarrow> nat" where
  "getLE [] = 0"
| "getLE (b # bs) = unat b + 256 * getLE bs"

lemma length_putLE [simp]: "length (putLE n v) = n"
  by (induction n arbitrary: v) simp_all

lemma getLE_putLE: "getLE (putLE n v) = v mod 256 ^ n"
proof (induction n arbitrary: v)
  case 0
  then show ?case by simp
next
  case (Suc n)
  have "getLE (putLE (Suc n) v) = v mod 256 + 256 * (v div 256 mod 256 ^ n)"
    by (simp add: Suc.IH unat_of_nat)
  also have "\<dots> = v mod (256 * 256 ^ n)"
    by (simp add: mod_mult2_eq)
  finally show ?case by simp
qed

lemma putLE_getLE: "putLE (length bs) (getLE bs) = bs"
proof (induction bs)
  case (Cons b bs)
  have b: "unat b < 256" using unsigned_less [of b] by simp
  then have "unat (of_nat (unat b + 256 * getLE bs) :: u8) = unat b"
    by (simp add: unat_of_nat del: of_nat_add of_nat_mult)
  then have "(of_nat (unat b + 256 * getLE bs) :: u8) = b"
    by (simp only: word_unat_eq_iff)
  moreover have "(unat b + 256 * getLE bs) div 256 = getLE bs" using b by simp
  ultimately show ?case using Cons by (simp del: of_nat_add of_nat_mult)
qed simp

lemma getLE_bound: "getLE bs < 256 ^ length bs"
proof (induction bs)
  case (Cons b bs)
  have "unat b < 256" using unsigned_less [of b] by simp
  with Cons show ?case by simp
qed simp

abbreviation putUint64 :: "u64 \<Rightarrow> bytes" where
  "putUint64 v \<equiv> putLE 8 (unat v)"

abbreviation putUint16 :: "u16 \<Rightarrow> bytes" where
  "putUint16 v \<equiv> putLE 2 (unat v)"

text \<open>\<^verbatim>\<open>binary.LittleEndian.Uint64\<close> and \<^verbatim>\<open>Uint16\<close> read a prefix and panic on a shorter slice.\<close>

definition leUint64 :: "bytes \<Rightarrow> u64 option" where
  "leUint64 bs = (if length bs < 8 then None else Some (of_nat (getLE (take 8 bs))))"

definition leUint16 :: "bytes \<Rightarrow> u16 option" where
  "leUint16 bs = (if length bs < 2 then None else Some (of_nat (getLE (take 2 bs))))"

lemma leUint64_put [simp]: "leUint64 (putUint64 v @ rest) = Some v"
proof -
  have "unat v < 256 ^ 8" using unsigned_less [of v] by simp
  then show ?thesis by (simp add: leUint64_def getLE_putLE)
qed

lemma leUint16_put [simp]: "leUint16 (putUint16 v @ rest) = Some v"
proof -
  have "unat v < 256 ^ 2" using unsigned_less [of v] by simp
  then show ?thesis by (simp add: leUint16_def getLE_putLE)
qed

lemma leUint64_None [simp]: "leUint64 bs = None \<longleftrightarrow> length bs < 8"
  by (simp add: leUint64_def)

lemma leUint16_None [simp]: "leUint16 bs = None \<longleftrightarrow> length bs < 2"
  by (simp add: leUint16_def)

lemma putUint64_le: "leUint64 bs = Some v \<Longrightarrow> putUint64 v = take 8 bs"
proof -
  assume a: "leUint64 bs = Some v"
  then have len: "length (take 8 bs) = 8" and v: "v = of_nat (getLE (take 8 bs))"
    by (auto simp: leUint64_def split: if_splits)
  have "getLE (take 8 bs) < 256 ^ 8" using getLE_bound [of "take 8 bs"] len by simp
  then have "unat v = getLE (take 8 bs)" by (simp add: v unat_of_nat)
  then show ?thesis using putLE_getLE [of "take 8 bs"] len by simp
qed

lemma putUint16_le: "leUint16 bs = Some v \<Longrightarrow> putUint16 v = take 2 bs"
proof -
  assume a: "leUint16 bs = Some v"
  then have len: "length (take 2 bs) = 2" and v: "v = of_nat (getLE (take 2 bs))"
    by (auto simp: leUint16_def split: if_splits)
  have "getLE (take 2 bs) < 256 ^ 2" using getLE_bound [of "take 2 bs"] len by simp
  then have "unat v = getLE (take 2 bs)" by (simp add: v unat_of_nat)
  then show ?thesis using putLE_getLE [of "take 2 bs"] len by simp
qed

section \<open>Messages\<close>

definition MsgAudioFromDiscord :: u8 where "MsgAudioFromDiscord = 0x01"
definition MsgAudioToDiscord :: u8 where "MsgAudioToDiscord = 0x02"
definition MsgUserJoin :: u8 where "MsgUserJoin = 0x03"
definition MsgUserLeave :: u8 where "MsgUserLeave = 0x04"
definition MsgReady :: u8 where "MsgReady = 0x05"
definition MsgShutdown :: u8 where "MsgShutdown = 0x06"
definition MsgJoinChannel :: u8 where "MsgJoinChannel = 0x07"
definition MsgLeaveChannel :: u8 where "MsgLeaveChannel = 0x08"
definition MsgVoiceState :: u8 where "MsgVoiceState = 0x09"
definition MsgChannelList :: u8 where "MsgChannelList = 0x0A"
definition MsgUserInfo :: u8 where "MsgUserInfo = 0x0B"
definition MsgMatrixUsers :: u8 where "MsgMatrixUsers = 0x0C"

lemmas msg_types =
  MsgAudioFromDiscord_def MsgAudioToDiscord_def MsgUserJoin_def MsgUserLeave_def MsgReady_def
  MsgShutdown_def MsgJoinChannel_def MsgLeaveChannel_def MsgVoiceState_def MsgChannelList_def
  MsgUserInfo_def MsgMatrixUsers_def

record message =
  msgType :: u8
  msgUserID :: u64
  msgPayload :: bytes

text \<open>How a stream ends: the peer closed it, or reads fail with an error (a deadline).\<close>

datatype streamEnd = StreamEOF | StreamFail goerror

record conn =
  inbound :: bytes
  inEnd :: streamEnd
  outbound :: bytes
  outRoom :: "(nat \<times> goerror) option"
  readTimeout :: int
  writeTimeout :: int
  readDeadline :: "int option"
  writeDeadline :: "int option"

definition SetReadTimeout :: "int \<Rightarrow> conn \<Rightarrow> conn" where
  "SetReadTimeout d c = c\<lparr>readTimeout := d\<rparr>"

definition SetWriteTimeout :: "int \<Rightarrow> conn \<Rightarrow> conn" where
  "SetWriteTimeout d c = c\<lparr>writeTimeout := d\<rparr>"

text \<open>
  \<^verbatim>\<open>io.ReadFull\<close>: exactly \<open>n\<close> bytes or an error; at the end of the stream the error says whether
  any byte had been read.
\<close>

definition readFull :: "nat \<Rightarrow> conn \<Rightarrow> (goerror + bytes) \<times> conn" where
  "readFull n c =
     (if n \<le> length (inbound c)
      then (Inr (take n (inbound c)), c\<lparr>inbound := drop n (inbound c)\<rparr>)
      else (Inl (case inEnd c of
                   StreamEOF \<Rightarrow> if inbound c = [] then ''EOF'' else ''unexpected EOF''
                 | StreamFail e \<Rightarrow> e), c\<lparr>inbound := []\<rparr>))"

text \<open>
  \<^verbatim>\<open>net.Conn.Write\<close>: all bytes, or (deadline, peer gone) an error after the prefix the kernel
  still took. \<open>outRoom\<close> is what the kernel will still take and the error that follows.
\<close>

definition connWrite :: "bytes \<Rightarrow> conn \<Rightarrow> goerror option \<times> conn" where
  "connWrite bs c =
     (case outRoom c of
        None \<Rightarrow> (None, c\<lparr>outbound := outbound c @ bs\<rparr>)
      | Some (k, e) \<Rightarrow>
          if length bs \<le> k
          then (None, c\<lparr>outbound := outbound c @ bs, outRoom := Some (k - length bs, e)\<rparr>)
          else (Some e, c\<lparr>outbound := outbound c @ take k bs, outRoom := Some (0, e)\<rparr>))"

definition ReadMessage :: "int \<Rightarrow> conn \<Rightarrow> (goerror + message) \<times> conn" where
  "ReadMessage now c0 =
     (let c = (if readTimeout c0 > 0 then c0\<lparr>readDeadline := Some (now + readTimeout c0)\<rparr> else c0) in
      case readFull 11 c of
        (Inl e, c1) \<Rightarrow> (Inl (wrapErr ''read header'' e), c1)
      | (Inr header, c1) \<Rightarrow>
          let ty = header ! 0;
              uid = the (leUint64 (drop 1 header));
              payloadLen = unat (the (leUint16 (drop 9 header)))
          in if payloadLen > 0
             then (case readFull payloadLen c1 of
                     (Inl e, c2) \<Rightarrow> (Inl (wrapErr ''read payload'' e), c2)
                   | (Inr p, c2) \<Rightarrow> (Inr \<lparr>msgType = ty, msgUserID = uid, msgPayload = p\<rparr>, c2))
             else (Inr \<lparr>msgType = ty, msgUserID = uid, msgPayload = []\<rparr>, c1))"

definition frameHeader :: "message \<Rightarrow> bytes" where
  "frameHeader msg =
     msgType msg # putUint64 (msgUserID msg) @ putUint16 (of_nat (length (msgPayload msg)))"

definition WriteMessage :: "int \<Rightarrow> message \<Rightarrow> conn \<Rightarrow> goerror option \<times> conn" where
  "WriteMessage now msg c0 =
     (let c = (if writeTimeout c0 > 0 then c0\<lparr>writeDeadline := Some (now + writeTimeout c0)\<rparr> else c0) in
      case connWrite (frameHeader msg) c of
        (Some e, c1) \<Rightarrow> (Some (wrapErr ''write header'' e), c1)
      | (None, c1) \<Rightarrow>
          if length (msgPayload msg) > 0
          then (case connWrite (msgPayload msg) c1 of
                  (Some e, c2) \<Rightarrow> (Some (wrapErr ''write payload'' e), c2)
                | (None, c2) \<Rightarrow> (None, c2))
          else (None, c1))"

text \<open>The bytes of one frame.\<close>

definition encodeMessage :: "message \<Rightarrow> bytes" where
  "encodeMessage msg = frameHeader msg @ msgPayload msg"

text \<open>The reading end of a peer that sent \<open>bs\<close> and closed.\<close>

definition peerConn :: "bytes \<Rightarrow> conn" where
  "peerConn bs = \<lparr>inbound = bs, inEnd = StreamEOF, outbound = [], outRoom = None,
     readTimeout = 0, writeTimeout = 0, readDeadline = None, writeDeadline = None\<rparr>"

definition decodeFrame :: "bytes \<Rightarrow> (message \<times> bytes) option" where
  "decodeFrame bs =
     (case ReadMessage 0 (peerConn bs) of
        (Inl e, c) \<Rightarrow> None
      | (Inr m, c) \<Rightarrow> Some (m, inbound c))"

section \<open>Codecs\<close>

text \<open>Reading \<open>n\<close> items with a decoder that returns the rest of its input.\<close>

fun decodeN :: "(bytes \<Rightarrow> ('m \<times> bytes) option) \<Rightarrow> nat \<Rightarrow> bytes \<Rightarrow> ('m list \<times> bytes) option" where
  "decodeN dec 0 bs = Some ([], bs)"
| "decodeN dec (Suc n) bs =
     (case dec bs of
        None \<Rightarrow> None
      | Some (m, rest) \<Rightarrow> (case decodeN dec n rest of
                            None \<Rightarrow> None
                          | Some (ms, rest') \<Rightarrow> Some (m # ms, rest')))"

text \<open>
  The contract between the two ends of a byte stream: what one end encodes, the other decodes,
  whatever follows. The clients get unique decodability of sequences from it.
\<close>

locale stream_codec =
  fixes enc :: "'m \<Rightarrow> bytes"
    and dec :: "bytes \<Rightarrow> ('m \<times> bytes) option"
    and ok :: "'m \<Rightarrow> bool"
  assumes dec_enc: "ok m \<Longrightarrow> dec (enc m @ rest) = Some (m, rest)"
begin

lemma decode_many: "list_all ok ms \<Longrightarrow> decodeN dec (length ms) (concat (map enc ms) @ rest) = Some (ms, rest)"
  by (induction ms) (simp_all add: dec_enc)

lemma prefix_free:
  assumes "ok m" and "ok m'" and "enc m @ r = enc m' @ r'"
  shows "m = m' \<and> r = r'"
proof -
  have "dec (enc m @ r) = Some (m, r)" by (rule dec_enc [OF assms(1)])
  moreover have "dec (enc m @ r) = Some (m', r')"
    unfolding assms(3) by (rule dec_enc [OF assms(2)])
  ultimately show ?thesis by simp
qed

lemma enc_inject: "ok m \<Longrightarrow> ok m' \<Longrightarrow> enc m = enc m' \<Longrightarrow> m = m'"
  using prefix_free [of m m' "[]" "[]"] by simp

lemma concat_inject:
  assumes "list_all ok ms" and "list_all ok ms'" and "length ms = length ms'"
    and "concat (map enc ms) = concat (map enc ms')"
  shows "ms = ms'"
proof -
  have "decodeN dec (length ms) (concat (map enc ms) @ []) = Some (ms, [])"
    by (rule decode_many [OF assms(1)])
  moreover have "decodeN dec (length ms) (concat (map enc ms) @ []) = Some (ms', [])"
    unfolding assms(3,4) by (rule decode_many [OF assms(2)])
  ultimately show ?thesis by simp
qed

end

interpretation u64_codec: stream_codec putUint64
    "\<lambda>bs. map_option (\<lambda>v. (v, drop 8 bs)) (leUint64 bs)" "\<lambda>_. True"
  by unfold_locales simp

interpretation u16_codec: stream_codec putUint16
    "\<lambda>bs. map_option (\<lambda>v. (v, drop 2 bs)) (leUint16 bs)" "\<lambda>_. True"
  by unfold_locales simp

section \<open>Reading back what was written\<close>

definition wireLen :: "message \<Rightarrow> nat" where
  "wireLen m = length (msgPayload m) mod 65536"

definition fitsFrame :: "message \<Rightarrow> bool" where
  "fitsFrame m \<longleftrightarrow> length (msgPayload m) \<le> 65535"

definition armRead :: "int \<Rightarrow> conn \<Rightarrow> conn" where
  "armRead now c = (if readTimeout c > 0 then c\<lparr>readDeadline := Some (now + readTimeout c)\<rparr> else c)"

definition armWrite :: "int \<Rightarrow> conn \<Rightarrow> conn" where
  "armWrite now c = (if writeTimeout c > 0 then c\<lparr>writeDeadline := Some (now + writeTimeout c)\<rparr> else c)"

lemma arm_simps [simp]:
  "inbound (armRead now c) = inbound c" "inEnd (armRead now c) = inEnd c"
  "outbound (armWrite now c) = outbound c" "outRoom (armWrite now c) = outRoom c"
  by (simp_all add: armRead_def armWrite_def)

lemma length_frameHeader [simp]: "length (frameHeader m) = 11"
  by (simp add: frameHeader_def)

lemma frameHeader_fields:
  "frameHeader m ! 0 = msgType m"
  "the (leUint64 (drop 1 (frameHeader m))) = msgUserID m"
  "unat (the (leUint16 (drop 9 (frameHeader m)))) = wireLen m"
proof -
  show "frameHeader m ! 0 = msgType m" by (simp add: frameHeader_def)
  show "the (leUint64 (drop 1 (frameHeader m))) = msgUserID m" by (simp add: frameHeader_def)
  have "drop 9 (frameHeader m) = putUint16 (of_nat (length (msgPayload m))) @ []"
    by (simp add: frameHeader_def)
  then show "unat (the (leUint16 (drop 9 (frameHeader m)))) = wireLen m"
    by (simp only: leUint16_put option.sel) (simp add: unat_of_nat wireLen_def)
qed

lemma readFull_append:
  "inbound c = xs @ ys \<Longrightarrow> length xs = n \<Longrightarrow> readFull n c = (Inr xs, c\<lparr>inbound := ys\<rparr>)"
  by (auto simp: readFull_def)

lemma ReadMessage_frame:
  assumes "inbound c = encodeMessage m @ rest"
  shows "ReadMessage now c =
     (Inr (m\<lparr>msgPayload := take (wireLen m) (msgPayload m)\<rparr>),
      (armRead now c)\<lparr>inbound := drop (wireLen m) (msgPayload m) @ rest\<rparr>)"
proof -
  let ?c = "armRead now c"
  let ?p = "msgPayload m"
  let ?c1 = "?c\<lparr>inbound := ?p @ rest\<rparr>"
  have le: "wireLen m \<le> length ?p" by (simp add: wireLen_def)
  have h: "readFull 11 ?c = (Inr (frameHeader m), ?c1)"
    by (rule readFull_append) (simp_all add: assms encodeMessage_def)
  have p: "readFull (wireLen m) ?c1 = (Inr (take (wireLen m) ?p), ?c1\<lparr>inbound := drop (wireLen m) ?p @ rest\<rparr>)"
    by (rule readFull_append) (simp_all add: le flip: append_assoc)
  show ?thesis
  proof (cases "wireLen m > 0")
    case True
    then show ?thesis
      using h p by (simp add: ReadMessage_def frameHeader_fields flip: armRead_def del: One_nat_def)
  next
    case False
    then show ?thesis
      using h by (simp add: ReadMessage_def frameHeader_fields flip: armRead_def del: One_nat_def)
  qed
qed

lemma fitsFrame_wireLen: "fitsFrame m \<Longrightarrow> wireLen m = length (msgPayload m)"
  by (simp add: fitsFrame_def wireLen_def)

lemma peerConn_simps [simp]:
  "inbound (peerConn bs) = bs" "inEnd (peerConn bs) = StreamEOF" "readTimeout (peerConn bs) = 0"
  by (simp_all add: peerConn_def)

lemma armRead_peerConn [simp]: "armRead now (peerConn bs) = peerConn bs"
  by (simp add: armRead_def)

lemma decodeFrame_encode: "fitsFrame m \<Longrightarrow> decodeFrame (encodeMessage m @ rest) = Some (m, rest)"
  by (simp add: decodeFrame_def ReadMessage_frame [of "peerConn (encodeMessage m @ rest)" m rest]
      fitsFrame_wireLen)

interpretation frame_codec: stream_codec encodeMessage decodeFrame fitsFrame
  by unfold_locales (rule decodeFrame_encode)

text \<open>What a successful read consumed is a frame that encodes the message it returned.\<close>

lemma readFull_Inr:
  "readFull n c = (Inr bs, c') \<Longrightarrow>
   length bs = n \<and> inbound c = bs @ inbound c' \<and> c' = c\<lparr>inbound := inbound c'\<rparr>"
  by (auto simp: readFull_def split: if_splits)

lemma frameHeader_unfold:
  assumes "length h = 11" and "length p = unat (the (leUint16 (drop 9 h)))"
  shows "h = frameHeader \<lparr>msgType = h ! 0, msgUserID = the (leUint64 (drop 1 h)), msgPayload = p\<rparr>"
proof -
  obtain u where u: "leUint64 (drop 1 h) = Some u"
    using assms(1) by (auto simp: leUint64_def)
  obtain v where v: "leUint16 (drop 9 h) = Some v"
    using assms(1) by (auto simp: leUint16_def)
  have len: "(of_nat (length p) :: u16) = v" using assms(2) v by simp
  have "h = h ! 0 # take 8 (drop 1 h) @ take 2 (drop 9 h)"
    using assms(1) by (auto simp: list_eq_iff_nth_eq nth_Cons nth_append split: nat.splits)
  also have "\<dots> = h ! 0 # putUint64 u @ putUint16 v"
    using putUint64_le [OF u] putUint16_le [OF v] by simp
  finally show ?thesis using u len by (simp add: frameHeader_def del: One_nat_def)
qed

lemma ReadMessage_Inr:
  assumes "ReadMessage now c = (Inr m, c')"
  shows "inbound c = encodeMessage m @ inbound c' \<and> fitsFrame m"
proof -
  from assms obtain h c1 where h: "readFull 11 (armRead now c) = (Inr h, c1)"
    by (auto simp: ReadMessage_def simp flip: armRead_def split: sum.splits prod.splits)
  let ?n = "unat (the (leUint16 (drop 9 h)))"
  from h have len: "length h = 11" and in1: "inbound c = h @ inbound c1"
    using readFull_Inr [OF h] by auto
  obtain p where m: "m = \<lparr>msgType = h ! 0, msgUserID = the (leUint64 (drop 1 h)), msgPayload = p\<rparr>"
    and p: "length p = ?n" and in2: "inbound c1 = p @ inbound c'"
    using assms h
    by (cases "?n > 0")
      (auto simp: ReadMessage_def simp flip: armRead_def simp del: One_nat_def
        split: sum.splits prod.splits if_splits dest!: readFull_Inr)
  have "h = frameHeader m" using frameHeader_unfold [OF len p] m by simp
  moreover have "?n < 65536" using unsigned_less [of "the (leUint16 (drop 9 h))"] by simp
  ultimately show ?thesis
    using in1 in2 p m by (simp add: encodeMessage_def fitsFrame_def)
qed

lemma ReadMessage_frame_conn:
  "ReadMessage now c = (Inr m, c') \<Longrightarrow> inEnd c' = inEnd c"
  by (auto simp: ReadMessage_def readFull_def Let_def split: sum.splits prod.splits if_splits)

text \<open>\<^verbatim>\<open>for { msg, err := conn.ReadMessage(); ... }\<close>: every message up to the first error.\<close>

function readAll :: "int \<Rightarrow> conn \<Rightarrow> message list \<times> goerror" where
  "readAll now c =
     (case ReadMessage now c of
        (Inl e, c') \<Rightarrow> ([], e)
      | (Inr m, c') \<Rightarrow> (case readAll now c' of (ms, e) \<Rightarrow> (m # ms, e)))"
  by pat_completeness auto
termination
proof (relation "measure (\<lambda>(now, c). length (inbound c))", goal_cases)
  case 1
  then show ?case by simp
next
  case (2 now c r c' m)
  then have "ReadMessage now c = (Inr m, c')" by simp
  from ReadMessage_Inr [OF this] show ?case by (simp add: encodeMessage_def)
qed

declare readAll.simps [simp del]

definition writeAll :: "int \<Rightarrow> message list \<Rightarrow> conn \<Rightarrow> conn" where
  "writeAll now ms c = fold (\<lambda>m c. snd (WriteMessage now m c)) ms c"

lemma readFull_short:
  "length (inbound c) < n \<Longrightarrow> \<exists>e. readFull n c = (Inl e, c\<lparr>inbound := []\<rparr>)"
  by (auto simp: readFull_def)

text \<open>A stream that ends inside a frame yields an error, never a shortened message.\<close>

lemma ReadMessage_cut:
  assumes "inbound c = take k (encodeMessage m)" and "k < length (encodeMessage m)" and "fitsFrame m"
  shows "\<exists>e c'. ReadMessage now c = (Inl e, c')"
proof (rule ccontr)
  assume "\<not> ?thesis"
  then obtain m' c' where r: "ReadMessage now c = (Inr m', c')"
    by (metis prod.collapse sum.exhaust_sel)
  have eq: "take k (encodeMessage m) = encodeMessage m' @ inbound c'" and fit: "fitsFrame m'"
    using ReadMessage_Inr [OF r] assms(1) by auto
  have "encodeMessage m @ [] = encodeMessage m' @ (inbound c' @ drop k (encodeMessage m))"
    using eq by (metis append.assoc append_Nil2 append_take_drop_id)
  with assms(3) fit have "inbound c' @ drop k (encodeMessage m) = []"
    using frame_codec.prefix_free by metis
  with assms(2) show False by simp
qed

section \<open>Properties of the protocol\<close>

lemma connWrite_prefix:
  "connWrite bs c = (r, c') \<Longrightarrow>
   \<exists>k \<le> length bs. outbound c' = outbound c @ take k bs \<and> (r = None \<longleftrightarrow> k = length bs)"
  by (cases "outRoom c")
    (auto simp: connWrite_def split: if_splits, metis nat_le_linear order_refl)

lemma connWrite_free:
  "outRoom c = None \<Longrightarrow> connWrite bs c = (None, c\<lparr>outbound := outbound c @ bs\<rparr>)"
  by (simp add: connWrite_def)

lemma WriteMessage_free:
  "outRoom c = None \<Longrightarrow>
   WriteMessage now m c = (None, (armWrite now c)\<lparr>outbound := outbound c @ encodeMessage m\<rparr>)"
  by (simp add: WriteMessage_def connWrite_free encodeMessage_def flip: armWrite_def)

lemma outbound_writeAll:
  "outRoom c = None \<Longrightarrow> outbound (writeAll now ms c) = outbound c @ concat (map encodeMessage ms)"
  by (induction ms arbitrary: c) (simp_all add: writeAll_def WriteMessage_free)

lemma readAll_frame:
  assumes "fitsFrame m" and "inbound c = encodeMessage m @ rest"
  shows "readAll now c = (case readAll now ((armRead now c)\<lparr>inbound := rest\<rparr>) of (ms, e) \<Rightarrow> (m # ms, e))"
  by (simp add: readAll.simps [of now c] ReadMessage_frame [OF assms(2)] fitsFrame_wireLen [OF assms(1)])

text \<open>
  A frame with a payload of at most 65535 bytes is read back exactly; in general the reader gets
  the payload cut at its length modulo 65536 and finds the remaining payload bytes at the start of
  what it takes for the next frame.
\<close>

theorem ipc_read_back:
  "ReadMessage now (c\<lparr>inbound := encodeMessage m @ rest\<rparr>) =
     (Inr (m\<lparr>msgPayload := take (length (msgPayload m) mod 65536) (msgPayload m)\<rparr>),
      (armRead now c)\<lparr>inbound := drop (length (msgPayload m) mod 65536) (msgPayload m) @ rest\<rparr>)"
proof -
  let ?c = "c\<lparr>inbound := encodeMessage m @ rest\<rparr>"
  have "ReadMessage now ?c =
      (Inr (m\<lparr>msgPayload := take (wireLen m) (msgPayload m)\<rparr>),
       (armRead now ?c)\<lparr>inbound := drop (wireLen m) (msgPayload m) @ rest\<rparr>)"
    by (rule ReadMessage_frame) simp
  then show ?thesis by (simp add: wireLen_def armRead_def)
qed

text \<open>
  C29: A sidecar that reads everything the bridge wrote gets exactly the written messages, in order,
  and then the end-of-stream error, provided every payload fits a frame.
\<close>

theorem ipc_stream_roundtrip:
  assumes "list_all fitsFrame ms" and "outRoom c = None" and "outbound c = []"
  shows "readAll now (peerConn (outbound (writeAll t ms c))) = (ms, ''read header: EOF'')"
proof -
  have "readAll now (peerConn (concat (map encodeMessage ms))) = (ms, ''read header: EOF'')"
    using assms(1)
  proof (induction ms)
    case Nil
    show ?case
      by (simp add: readAll.simps [of now "peerConn []"] ReadMessage_def readFull_def wrapErr_def)
  next
    case (Cons m ms)
    have "(peerConn (encodeMessage m @ concat (map encodeMessage ms)))
        \<lparr>inbound := concat (map encodeMessage ms)\<rparr> = peerConn (concat (map encodeMessage ms))"
      by (simp add: peerConn_def)
    with Cons show ?case
      by (simp add: readAll_frame [of m _ "concat (map encodeMessage ms)"])
  qed
  then show ?thesis using assms(2,3) by (simp add: outbound_writeAll)
qed

theorem ipc_stream_roundtrip_witness:
  "readAll 0 (peerConn (outbound (writeAll 7
      [\<lparr>msgType = MsgReady, msgUserID = 0, msgPayload = []\<rparr>,
       \<lparr>msgType = MsgAudioFromDiscord, msgUserID = 42, msgPayload = [1, 2, 3]\<rparr>] (peerConn [])))) =
   ([\<lparr>msgType = MsgReady, msgUserID = 0, msgPayload = []\<rparr>,
     \<lparr>msgType = MsgAudioFromDiscord, msgUserID = 42, msgPayload = [1, 2, 3]\<rparr>], ''read header: EOF'')"
  by (rule ipc_stream_roundtrip) (simp_all add: fitsFrame_def peerConn_def)

text \<open>
  When the peer dies in the middle of a frame, the reader delivers all complete messages before
  it and then an error; the truncated message is never delivered.
\<close>

theorem ipc_cut_stream:
  assumes "list_all fitsFrame ms" and "fitsFrame m" and "k < length (encodeMessage m)"
  shows "\<exists>e. readAll now (peerConn (concat (map encodeMessage ms) @ take k (encodeMessage m))) = (ms, e)"
  using assms(1)
proof (induction ms)
  case Nil
  obtain e c' where "ReadMessage now (peerConn (take k (encodeMessage m))) = (Inl e, c')"
    using ReadMessage_cut [OF _ assms(3,2), of "peerConn (take k (encodeMessage m))" now]
    by (auto simp del: take_append)
  then show ?case by (simp add: readAll.simps [of now "peerConn _"])
next
  case (Cons m' ms)
  let ?rest = "concat (map encodeMessage ms) @ take k (encodeMessage m)"
  have "(peerConn (encodeMessage m' @ ?rest))\<lparr>inbound := ?rest\<rparr> = peerConn ?rest"
    by (simp add: peerConn_def)
  with Cons show ?case
    by (auto simp: readAll_frame [of m' _ ?rest])
qed

theorem ipc_cut_stream_witness:
  "\<exists>e. readAll 0 (peerConn (concat (map encodeMessage
      [\<lparr>msgType = MsgReady, msgUserID = 0, msgPayload = []\<rparr>])
      @ take 12 (encodeMessage \<lparr>msgType = MsgAudioFromDiscord, msgUserID = 42, msgPayload = [1, 2]\<rparr>))) =
    ([\<lparr>msgType = MsgReady, msgUserID = 0, msgPayload = []\<rparr>], e)"
  by (rule ipc_cut_stream) (simp_all add: fitsFrame_def encodeMessage_def)

text \<open>
  Whatever the socket does, \<^verbatim>\<open>WriteMessage\<close> hands the kernel a prefix of the frame, and reports
  success exactly when that prefix is the whole frame.
\<close>

theorem ipc_write_prefix:
  "case WriteMessage now m c of (r, c') \<Rightarrow>
     \<exists>k. k \<le> length (encodeMessage m) \<and> outbound c' = outbound c @ take k (encodeMessage m) \<and>
         (r = None \<longleftrightarrow> k = length (encodeMessage m))"
proof -
  obtain r1 c1 where w1: "connWrite (frameHeader m) (armWrite now c) = (r1, c1)" by fastforce
  obtain r2 c2 where w2: "connWrite (msgPayload m) c1 = (r2, c2)" by fastforce
  obtain k1 where k1: "k1 \<le> 11" "outbound c1 = outbound c @ take k1 (frameHeader m)" "r1 = None \<longleftrightarrow> k1 = 11"
    using connWrite_prefix [OF w1] by auto
  obtain k2 where k2: "k2 \<le> length (msgPayload m)" "outbound c2 = outbound c1 @ take k2 (msgPayload m)"
      "r2 = None \<longleftrightarrow> k2 = length (msgPayload m)"
    using connWrite_prefix [OF w2] by auto
  have unfold: "WriteMessage now m c =
      (case r1 of Some e \<Rightarrow> (Some (wrapErr ''write header'' e), c1)
       | None \<Rightarrow> if msgPayload m = [] then (None, c1)
                else (case r2 of Some e \<Rightarrow> (Some (wrapErr ''write payload'' e), c2) | None \<Rightarrow> (None, c2)))"
    by (cases r1) (simp_all add: WriteMessage_def w1 w2 split: option.split flip: armWrite_def)
  show ?thesis
  proof (cases r1)
    case (Some e)
    with k1 show ?thesis
      by (auto simp: unfold encodeMessage_def intro!: exI [of _ k1])
  next
    case None
    show ?thesis
    proof (cases "msgPayload m = []")
      case True
      with None k1 show ?thesis
        by (auto simp: unfold encodeMessage_def intro!: exI [of _ 11])
    next
      case False
      with None k1 k2 show ?thesis
        by (auto simp: unfold encodeMessage_def intro!: exI [of _ "11 + k2"] split: option.splits)
    qed
  qed
qed

end
