(* ===== verification/World.thy ===== *)
theory World
  imports Complex_Main Ipc
begin

text \<open>
  The outside of the program. Every call to the homeserver, the LiveKit SDK, a socket, a process or
  the clock is an \<open>effect\<close>; what such a call returns is decided by an \<open>env\<close> from the effects
  performed so far and the call itself. Theorems quantify over the \<open>env\<close>, so they hold for every
  behaviour of these systems. A function that calls out takes and returns the history of effects,
  which is also what the theorems speak about when they say what the code did to the outside.
\<close>

section \<open>JSON values, as \<^verbatim>\<open>encoding/json\<close> decodes them\<close>

datatype json =
    JNull
  | JBool bool
  | JNum rat
  | JStr string
  | JArr "json list"
  | JObj "(string \<times> json) list"

text \<open>Type assertions with the comma-ok form: the zero value when the dynamic type is another.\<close>

definition jField :: "json \<Rightarrow> string \<Rightarrow> json option" where
  "jField j k = (case j of JObj kvs \<Rightarrow> map_of kvs k | _ \<Rightarrow> None)"

definition jObj :: "json option \<Rightarrow> json option" where
  "jObj v = (case v of Some (JObj kvs) \<Rightarrow> Some (JObj kvs) | _ \<Rightarrow> None)"

definition jString :: "json option \<Rightarrow> string" where
  "jString v = (case v of Some (JStr s) \<Rightarrow> s | _ \<Rightarrow> '''')"

text \<open>Conversion of a \<^verbatim>\<open>float64\<close> to \<^verbatim>\<open>int64\<close> truncates towards zero.\<close>

definition truncRat :: "rat \<Rightarrow> int" where
  "truncRat r = (if r \<ge> 0 then \<lfloor>r\<rfloor> else \<lceil>r\<rceil>)"

text \<open>
  The state of a room: event type, then state key, then the raw content (\<open>None\<close> for a nil
  \<^verbatim>\<open>Content.Raw\<close>).
\<close>

type_synonym roomState = "(string \<times> (string \<times> json option) list) list"

section \<open>Effects\<close>

text \<open>Calls to the homeserver; the first argument is the user the request is made as.\<close>

datatype hsCall =
    HsCreateAppService string string
  | HsNewClient string string
  | HsRegister string
  | HsJoin string string
  | HsSendState string string string string json
  | HsGetProfile string string
  | HsSetDisplayName string string
  | HsUploadMedia string bytes
  | HsSetAvatarURL string string
  | HsCreateRoom string string string
  | HsJoinedRooms string
  | HsRoomState string string
  | HsStateEvent string string string string
  | HsSendText string string string

text \<open>Unix sockets and child processes.\<close>

datatype procCall =
    SockRemove string
  | SockListen string
  | SockChmod string nat
  | SockClose string
  | SockAccept string nat
  | ProcStart string "string list"
  | ProcKill nat
  | ProcTerm nat
  | ProcWait nat

text \<open>
  The LiveKit SDK, the Opus codec and the media mixer. A handle the SDK returns (a room, a track) is
  named by the position in the history of the call that returned it. \<open>LkConnect\<close> has the server, the
  room and the participant's identity.
\<close>

datatype lkCall =
    LkNewTrack
  | LkConnect string string string
  | LkPublish nat nat
  | LkDisconnect nat
  | LkCloseTrack nat
  | LkWriteSample nat bytes
  | OpusNewEncoder nat nat
  | OpusSetBitrate nat
  | OpusSetComplexity nat
  | MixerNew
  | MixerStop

datatype effect =
    Hs hsCall
  | Proc procCall
  | Lk lkCall
  | HttpGet string
  | SleepSec nat
  | IpcWrite nat message
  | IpcClose nat
  | TimerStart nat u64
  | TimerStop nat
  | DbExec string "string list"

type_synonym history = "effect list"

record httpResponse =
  httpStatus :: int
  httpBody :: "goerror + bytes"

record env =
  askErr :: "history \<Rightarrow> effect \<Rightarrow> goerror option"
  askStr :: "history \<Rightarrow> effect \<Rightarrow> goerror + string"
  askRooms :: "history \<Rightarrow> effect \<Rightarrow> goerror + string list"
  askState :: "history \<Rightarrow> effect \<Rightarrow> goerror + roomState"
  askJson :: "history \<Rightarrow> effect \<Rightarrow> goerror + json"
  askHttp :: "history \<Rightarrow> effect \<Rightarrow> goerror + httpResponse"
  askNat :: "history \<Rightarrow> effect \<Rightarrow> goerror + nat"
  nowMs :: "history \<Rightarrow> int"
  ctxErr :: "history \<Rightarrow> goerror option"
  rangeOrder :: "history \<Rightarrow> nat list"
  ucLower :: "string \<Rightarrow> string"
  ucFold :: "string \<Rightarrow> string"
  fmtQuote :: "string \<Rightarrow> string"

text \<open>A call whose only result is an error: the error, and the history with the call in it.\<close>

definition callErr :: "env \<Rightarrow> effect \<Rightarrow> history \<Rightarrow> goerror option \<times> history" where
  "callErr env e h = (askErr env h e, h @ [e])"

definition callStr :: "env \<Rightarrow> effect \<Rightarrow> history \<Rightarrow> (goerror + string) \<times> history" where
  "callStr env e h = (askStr env h e, h @ [e])"

lemmas call_defs = callErr_def callStr_def

text \<open>An environment in which every call succeeds, used in the examples.\<close>

definition calmEnv :: env where
  "calmEnv = \<lparr>
     askErr = (\<lambda>_ _. None),
     askStr = (\<lambda>_ _. Inr ''''),
     askRooms = (\<lambda>_ _. Inr []),
     askState = (\<lambda>_ _. Inr []),
     askJson = (\<lambda>_ _. Inr JNull),
     askHttp = (\<lambda>_ _. Inl ''no network''),
     askNat = (\<lambda>_ _. Inr 0),
     nowMs = (\<lambda>_. 0),
     ctxErr = (\<lambda>_. None),
     rangeOrder = (\<lambda>_. []),
     ucLower = asciiLower,
     ucFold = asciiLower,
     fmtQuote = (\<lambda>s. CHR 0x22 # s @ [CHR 0x22])\<rparr>"

lemma calmEnv_simps [simp]:
  "askErr calmEnv = (\<lambda>_ _. None)" "askStr calmEnv = (\<lambda>_ _. Inr '''')"
  "askRooms calmEnv = (\<lambda>_ _. Inr [])" "askState calmEnv = (\<lambda>_ _. Inr [])"
  "askJson calmEnv = (\<lambda>_ _. Inr JNull)" "askHttp calmEnv = (\<lambda>_ _. Inl ''no network'')"
  "askNat calmEnv = (\<lambda>_ _. Inr 0)" "nowMs calmEnv = (\<lambda>_. 0)" "ctxErr calmEnv = (\<lambda>_. None)"
  "rangeOrder calmEnv = (\<lambda>_. [])" "ucLower calmEnv = asciiLower" "ucFold calmEnv = asciiLower"
  "fmtQuote calmEnv = (\<lambda>s. CHR 0x22 # s @ [CHR 0x22])"
  by (simp_all add: calmEnv_def)

end
