(* ===== verification/Store.thy ===== *)
theory Store
  imports World
begin

text \<open>
  \<^verbatim>\<open>pkg/store/store.go\<close>: the three SQLite tables and the statements the program runs on them. A
  statement that fails in the database (disk, lock, an argument the driver refuses) leaves the tables
  as they are; whether it fails is the environment's choice. A query without \<^verbatim>\<open>ORDER BY\<close> returns its
  rows in the order a choice sequence picks.
\<close>

record botRow =
  brID :: int
  brToken :: string
  brGuild :: string
  brActive :: bool

record roomRow =
  rrMatrix :: string
  rrName :: string
  rrGuild :: string
  rrCategory :: u64

record guildRow =
  grSpace :: string
  grLastSync :: int

text \<open>The tables; \<open>dbBotSeq\<close> is the \<^verbatim>\<open>AUTOINCREMENT\<close> counter of \<^verbatim>\<open>bots\<close>.\<close>

record database =
  dbBots :: "botRow list"
  dbBotSeq :: int
  dbRooms :: "(u64, roomRow) gomap"
  dbGuilds :: "(string, guildRow) gomap"

text \<open>A database file: a table that \<^verbatim>\<open>CREATE TABLE IF NOT EXISTS\<close> has not made yet is \<open>None\<close>.\<close>

record databaseFile =
  dfBots :: "(botRow list \<times> int) option"
  dfRooms :: "(u64, roomRow) gomap option"
  dfGuilds :: "(string, guildRow) gomap option"

definition migrate :: "databaseFile \<Rightarrow> database" where
  "migrate f = \<lparr>
     dbBots = (case dfBots f of None \<Rightarrow> [] | Some (rows, seq) \<Rightarrow> rows),
     dbBotSeq = (case dfBots f of None \<Rightarrow> 0 | Some (rows, seq) \<Rightarrow> seq),
     dbRooms = (case dfRooms f of None \<Rightarrow> [] | Some r \<Rightarrow> r),
     dbGuilds = (case dfGuilds f of None \<Rightarrow> [] | Some g \<Rightarrow> g)\<rparr>"

definition OpenDB :: "env \<Rightarrow> string \<Rightarrow> databaseFile \<Rightarrow> history \<Rightarrow> (goerror + database) \<times> history" where
  "OpenDB env path f h =
     (case callErr env (DbExec ''open'' [path]) h of
        (Some e, h1) \<Rightarrow> (Inl (wrapErr ''open database'' e), h1)
      | (None, h1) \<Rightarrow>
          (case callErr env (DbExec ''migrate'' []) h1 of
             (Some e, h2) \<Rightarrow> (Inl (wrapErr ''migrate'' e), h2)
           | (None, h2) \<Rightarrow> (Inr (migrate f), h2)))"

section \<open>Bots\<close>

record Bot =
  botID :: int
  botToken :: string
  botGuildID :: string
  botActive :: bool

definition scanBot :: "botRow \<Rightarrow> Bot" where
  "scanBot r = \<lparr>botID = brID r, botToken = brToken r, botGuildID = brGuild r, botActive = brActive r\<rparr>"

definition uniqueTokenErr :: goerror where
  "uniqueTokenErr = ''UNIQUE constraint failed: bots.token''"

definition storeAddBot ::
  "env \<Rightarrow> string \<Rightarrow> string \<Rightarrow> database \<times> history \<Rightarrow> (goerror + int) \<times> database \<times> history" where
  "storeAddBot env token guildID s =
     (let (db, h) = s; (r, h1) = callErr env (DbExec ''AddBot'' [token, guildID]) h in
      case r of
        Some e \<Rightarrow> (Inl (wrapErr ''add bot'' e), db, h1)
      | None \<Rightarrow>
          if token \<in> set (map brToken (dbBots db))
          then (Inl (wrapErr ''add bot'' uniqueTokenErr), db, h1)
          else let i = dbBotSeq db + 1;
                   row = \<lparr>brID = i, brToken = token, brGuild = guildID, brActive = True\<rparr>
               in (Inr i, db\<lparr>dbBots := dbBots db @ [row], dbBotSeq := i\<rparr>, h1))"

definition storeRemoveBot ::
  "env \<Rightarrow> int \<Rightarrow> database \<times> history \<Rightarrow> goerror option \<times> database \<times> history" where
  "storeRemoveBot env i s =
     (let (db, h) = s; (r, h1) = callErr env (DbExec ''RemoveBot'' [formatInt i]) h in
      case r of
        Some e \<Rightarrow> (Some e, db, h1)
      | None \<Rightarrow> (None, db\<lparr>dbBots := filter (\<lambda>r. brID r \<noteq> i) (dbBots db)\<rparr>, h1))"

definition storeDeactivateBot ::
  "env \<Rightarrow> string \<Rightarrow> database \<times> history \<Rightarrow> goerror option \<times> database \<times> history" where
  "storeDeactivateBot env token s =
     (let (db, h) = s; (r, h1) = callErr env (DbExec ''DeactivateBot'' [token]) h in
      case r of
        Some e \<Rightarrow> (Some e, db, h1)
      | None \<Rightarrow>
          (None, db\<lparr>dbBots := map (\<lambda>r. if brToken r = token then r\<lparr>brActive := False\<rparr> else r) (dbBots db)\<rparr>, h1))"

definition storeListBots ::
  "env \<Rightarrow> string \<Rightarrow> database \<Rightarrow> history \<Rightarrow> (goerror + Bot list) \<times> history" where
  "storeListBots env guildID db h =
     (case callErr env (DbExec ''ListBots'' [guildID]) h of
        (Some e, h1) \<Rightarrow> (Inl e, h1)
      | (None, h1) \<Rightarrow>
          (Inr (map scanBot (pick (rangeOrder env h) (filter (\<lambda>r. brGuild r = guildID) (dbBots db)))), h1))"

definition storeAllActiveBots ::
  "env \<Rightarrow> database \<Rightarrow> history \<Rightarrow> (goerror + Bot list) \<times> history" where
  "storeAllActiveBots env db h =
     (case callErr env (DbExec ''AllActiveBots'' []) h of
        (Some e, h1) \<Rightarrow> (Inl e, h1)
      | (None, h1) \<Rightarrow> (Inr (map scanBot (pick (rangeOrder env h) (filter brActive (dbBots db)))), h1))"

section \<open>Rooms\<close>

record Room =
  rmDiscordChannel :: u64
  rmMatrixRoom :: string
  rmName :: string
  rmGuildID :: string
  rmCategoryID :: u64

definition scanRoom :: "u64 \<Rightarrow> roomRow \<Rightarrow> Room" where
  "scanRoom ch r = \<lparr>rmDiscordChannel = ch, rmMatrixRoom = rrMatrix r, rmName = rrName r,
     rmGuildID = rrGuild r, rmCategoryID = rrCategory r\<rparr>"

text \<open>\<^verbatim>\<open>INSERT ... ON CONFLICT(discord_channel) DO UPDATE SET matrix_room, name, category_id\<close>.\<close>

definition upsertRow :: "Room \<Rightarrow> (u64, roomRow) gomap \<Rightarrow> (u64, roomRow) gomap" where
  "upsertRow r rooms =
     gput (rmDiscordChannel r)
       (case gget rooms (rmDiscordChannel r) of
          None \<Rightarrow> \<lparr>rrMatrix = rmMatrixRoom r, rrName = rmName r, rrGuild = rmGuildID r,
                    rrCategory = rmCategoryID r\<rparr>
        | Some old \<Rightarrow> old\<lparr>rrMatrix := rmMatrixRoom r, rrName := rmName r, rrCategory := rmCategoryID r\<rparr>)
       rooms"

definition storeUpsertRoom ::
  "env \<Rightarrow> Room \<Rightarrow> database \<times> history \<Rightarrow> goerror option \<times> database \<times> history" where
  "storeUpsertRoom env r s =
     (let (db, h) = s;
          (e, h1) = callErr env (DbExec ''UpsertRoom'' [formatUint (rmDiscordChannel r), rmMatrixRoom r]) h in
      case e of
        Some e \<Rightarrow> (Some e, db, h1)
      | None \<Rightarrow> (None, db\<lparr>dbRooms := upsertRow r (dbRooms db)\<rparr>, h1))"

definition storeListRooms ::
  "env \<Rightarrow> string \<Rightarrow> database \<Rightarrow> history \<Rightarrow> (goerror + Room list) \<times> history" where
  "storeListRooms env guildID db h =
     (case callErr env (DbExec ''ListRooms'' [guildID]) h of
        (Some e, h1) \<Rightarrow> (Inl e, h1)
      | (None, h1) \<Rightarrow>
          (Inr (filter (\<lambda>r. rmGuildID r = guildID)
             (List.map_filter (\<lambda>ch. map_option (scanRoom ch) (gget (dbRooms db) ch))
               (pick (rangeOrder env h) (gkeys (dbRooms db))))), h1))"

text \<open>\<^verbatim>\<open>sql.ErrNoRows\<close> is mapped to a nil room without an error.\<close>

definition storeGetRoom ::
  "env \<Rightarrow> u64 \<Rightarrow> database \<Rightarrow> history \<Rightarrow> (goerror + Room option) \<times> history" where
  "storeGetRoom env ch db h =
     (case callErr env (DbExec ''GetRoom'' [formatUint ch]) h of
        (Some e, h1) \<Rightarrow> (Inl e, h1)
      | (None, h1) \<Rightarrow> (Inr (map_option (scanRoom ch) (gget (dbRooms db) ch)), h1))"

definition storeDeleteRoom ::
  "env \<Rightarrow> u64 \<Rightarrow> database \<times> history \<Rightarrow> goerror option \<times> database \<times> history" where
  "storeDeleteRoom env ch s =
     (let (db, h) = s; (e, h1) = callErr env (DbExec ''DeleteRoom'' [formatUint ch]) h in
      case e of
        Some e \<Rightarrow> (Some e, db, h1)
      | None \<Rightarrow> (None, db\<lparr>dbRooms := gdel ch (dbRooms db)\<rparr>, h1))"

section \<open>Guilds\<close>

definition storeUpsertGuild ::
  "env \<Rightarrow> string \<Rightarrow> string \<Rightarrow> database \<times> history \<Rightarrow> goerror option \<times> database \<times> history" where
  "storeUpsertGuild env guildID spaceRoom s =
     (let (db, h) = s; (e, h1) = callErr env (DbExec ''UpsertGuild'' [guildID, spaceRoom]) h in
      case e of
        Some e \<Rightarrow> (Some e, db, h1)
      | None \<Rightarrow>
          (None, db\<lparr>dbGuilds := gput guildID \<lparr>grSpace = spaceRoom, grLastSync = nowMs env h div 1000\<rparr> (dbGuilds db)\<rparr>, h1))"

section \<open>The room table as a keyed store\<close>

text \<open>
  What the program stores about a channel: room, name and category. The guild is written when the row
  is made and kept by later upserts, so it is not part of this view.
\<close>

definition roomData :: "roomRow \<Rightarrow> string \<times> string \<times> u64" where
  "roomData r = (rrMatrix r, rrName r, rrCategory r)"

definition roomOf :: "string \<Rightarrow> u64 \<Rightarrow> string \<times> string \<times> u64 \<Rightarrow> Room" where
  "roomOf guild ch d = \<lparr>rmDiscordChannel = ch, rmMatrixRoom = fst d, rmName = fst (snd d),
     rmGuildID = guild, rmCategoryID = snd (snd d)\<rparr>"

lemma gget_upsertRow:
  "gget (upsertRow r rooms) ch =
     (if ch = rmDiscordChannel r
      then Some (case gget rooms ch of
          None \<Rightarrow> \<lparr>rrMatrix = rmMatrixRoom r, rrName = rmName r, rrGuild = rmGuildID r,
                    rrCategory = rmCategoryID r\<rparr>
        | Some old \<Rightarrow> old\<lparr>rrMatrix := rmMatrixRoom r, rrName := rmName r, rrCategory := rmCategoryID r\<rparr>)
      else gget rooms ch)"
  by (simp add: upsertRow_def)

interpretation room_table: keyed_store
    "\<lambda>rooms ch. map_option roomData (gget rooms ch)"
    "\<lambda>ch d. upsertRow (roomOf guild ch d)" gdel for guild
  by unfold_locales (auto simp: gget_upsertRow roomOf_def roomData_def split: option.splits)

section \<open>Runs of statements\<close>

datatype storeOp =
    AddBotOp string string
  | RemoveBotOp int
  | DeactivateBotOp string
  | UpsertRoomOp Room
  | DeleteRoomOp u64
  | UpsertGuildOp string string

fun storeStep :: "env \<Rightarrow> storeOp \<Rightarrow> database \<times> history \<Rightarrow> database \<times> history" where
  "storeStep env (AddBotOp t g) s = snd (storeAddBot env t g s)"
| "storeStep env (RemoveBotOp i) s = snd (storeRemoveBot env i s)"
| "storeStep env (DeactivateBotOp t) s = snd (storeDeactivateBot env t s)"
| "storeStep env (UpsertRoomOp r) s = snd (storeUpsertRoom env r s)"
| "storeStep env (DeleteRoomOp ch) s = snd (storeDeleteRoom env ch s)"
| "storeStep env (UpsertGuildOp g r) s = snd (storeUpsertGuild env g r s)"

lemmas store_op_defs =
  storeAddBot_def storeRemoveBot_def storeDeactivateBot_def storeUpsertRoom_def
  storeDeleteRoom_def storeUpsertGuild_def callErr_def

definition botsInv :: "database \<Rightarrow> bool" where
  "botsInv db \<longleftrightarrow> distinct (map brToken (dbBots db)) \<and> distinct (map brID (dbBots db)) \<and>
     (\<forall>r \<in> set (dbBots db). brID r \<le> dbBotSeq db)"

lemma distinct_map_filter: "distinct (map f xs) \<Longrightarrow> distinct (map f (filter P xs))"
  by (induction xs) auto

lemma map_deactivate [simp]:
  "map brToken (map (\<lambda>r. if brToken r = t then r\<lparr>brActive := False\<rparr> else r) rows) = map brToken rows"
  "map brID (map (\<lambda>r. if brToken r = t then r\<lparr>brActive := False\<rparr> else r) rows) = map brID rows"
  by (induction rows) auto

lemma storeStep_botsInv:
  assumes "botsInv (fst s)"
  shows "botsInv (fst (storeStep env op s))"
proof (cases op)
  case (DeactivateBotOp t)
  have "\<forall>r \<in> set (map (\<lambda>r. if brToken r = t then r\<lparr>brActive := False\<rparr> else r) (dbBots (fst s))).
      brID r \<le> dbBotSeq (fst s)"
    using assms by (auto simp: botsInv_def)
  then show ?thesis
    using assms DeactivateBotOp
    by (auto simp: botsInv_def store_op_defs split: prod.splits option.splits simp del: map_map set_map)
qed (use assms in \<open>auto simp: botsInv_def store_op_defs Let_def distinct_map_filter
      split: prod.splits option.splits; force\<close>)+

interpretation store_machine: event_machine "storeStep env" "\<lambda>s. botsInv (fst s)" for env
  by unfold_locales (rule storeStep_botsInv)

text \<open>Row ids are never given to another token: what was stored under an id before stays or is gone.\<close>

definition idsFrom :: "database \<Rightarrow> database \<Rightarrow> bool" where
  "idsFrom db0 db \<longleftrightarrow> botsInv db \<and> dbBotSeq db0 \<le> dbBotSeq db \<and>
     (\<forall>r \<in> set (dbBots db). brID r \<le> dbBotSeq db0 \<longrightarrow>
        (\<exists>r0 \<in> set (dbBots db0). brID r0 = brID r \<and> brToken r0 = brToken r))"

lemma storeStep_idsFrom:
  assumes "idsFrom db0 (fst s)"
  shows "idsFrom db0 (fst (storeStep env op s))"
proof -
  have inv: "botsInv (fst (storeStep env op s))"
    using assms by (simp add: idsFrom_def storeStep_botsInv)
  show ?thesis
    using assms inv
    by (cases op)
      (auto simp: idsFrom_def store_op_defs Let_def split: prod.splits option.splits if_splits)
qed

interpretation store_ids: event_machine "storeStep env" "\<lambda>s. idsFrom db0 (fst s)" for env db0
  by unfold_locales (rule storeStep_idsFrom)

section \<open>Properties\<close>

definition emptyFile :: databaseFile where
  "emptyFile = \<lparr>dfBots = None, dfRooms = None, dfGuilds = None\<rparr>"

lemma botsInv_empty: "botsInv (migrate emptyFile)"
  by (simp add: botsInv_def migrate_def emptyFile_def)

text \<open>
  Whatever statements run on a fresh database, and whichever of them fail, no two bot rows share
  a token or an id.
\<close>

theorem store_bots_distinct:
  "distinct (map brToken (dbBots (fst (fold (storeStep env) ops (migrate emptyFile, h))))) \<and>
   distinct (map brID (dbBots (fst (fold (storeStep env) ops (migrate emptyFile, h)))))"
proof -
  have "botsInv (fst (fold (storeStep env) ops (migrate emptyFile, h)))"
    by (rule store_machine.run_inv) (simp add: botsInv_empty)
  then show ?thesis by (simp add: botsInv_def)
qed

text \<open>
  A row id names one token for ever: after any statements, a row with the id of an earlier row
  carries that row's token. So the id a sidecar slot keeps can only ever delete its own bot.
\<close>

theorem store_bot_ids_stable:
  assumes "botsInv db" and "r0 \<in> set (dbBots db)"
    and "r \<in> set (dbBots (fst (fold (storeStep env) ops (db, h))))" and "brID r = brID r0"
  shows "brToken r = brToken r0"
proof -
  have "idsFrom db (fst (db, h))" using assms(1) by (auto simp: idsFrom_def)
  then have "idsFrom db (fst (fold (storeStep env) ops (db, h)))"
    by (rule store_ids.run_inv)
  moreover have "brID r \<le> dbBotSeq db" using assms by (auto simp: botsInv_def)
  ultimately obtain r' where r': "r' \<in> set (dbBots db)" "brID r' = brID r" "brToken r' = brToken r"
    using assms(3) by (auto simp: idsFrom_def)
  have "inj_on brID (set (dbBots db))" using assms(1) by (simp add: botsInv_def distinct_map)
  with r' assms(2,4) have "r' = r0" by (auto dest: inj_onD)
  with r' show ?thesis by simp
qed

definition oneBot :: database where
  "oneBot = \<lparr>dbBots = [\<lparr>brID = 1, brToken = ''a'', brGuild = ''g'', brActive = True\<rparr>],
     dbBotSeq = 1, dbRooms = [], dbGuilds = []\<rparr>"

theorem store_bot_ids_stable_witness:
  "brToken \<lparr>brID = 1, brToken = ''a'', brGuild = ''g'', brActive = False\<rparr> = ''a''"
proof -
  let ?ops = "[AddBotOp ''b'' ''g'', DeactivateBotOp ''a'']"
  let ?old = "\<lparr>brID = 1, brToken = ''a'', brGuild = ''g'', brActive = True\<rparr>"
  let ?r = "\<lparr>brID = 1, brToken = ''a'', brGuild = ''g'', brActive = False\<rparr>"
  have "botsInv oneBot" by (simp add: botsInv_def oneBot_def)
  moreover have "?old \<in> set (dbBots oneBot)" by (simp add: oneBot_def)
  moreover have "?r \<in> set (dbBots (fst (fold (storeStep calmEnv) ?ops (oneBot, []))))"
    by (simp add: store_op_defs oneBot_def migrate_def emptyFile_def)
  ultimately have "brToken ?r = brToken ?old"
    by (rule store_bot_ids_stable) simp
  then show ?thesis by simp
qed

text \<open>
  When the database accepts the statement, adding a bot succeeds exactly for a token no row has;
  it then appends one active row under a fresh id and changes nothing else, and a refused token
  leaves the tables as they were.
\<close>

theorem store_add_bot:
  assumes "askErr env h (DbExec ''AddBot'' [token, guild]) = None"
  shows "case storeAddBot env token guild (db, h) of (r, db', h') \<Rightarrow>
     (if token \<in> set (map brToken (dbBots db)) then (\<exists>e. r = Inl e) \<and> db' = db
      else r = Inr (dbBotSeq db + 1) \<and>
           db' = db\<lparr>dbBots := dbBots db @
                    [\<lparr>brID = dbBotSeq db + 1, brToken = token, brGuild = guild, brActive = True\<rparr>],
                    dbBotSeq := dbBotSeq db + 1\<rparr>)"
  using assms by (simp add: storeAddBot_def callErr_def Let_def)

theorem store_add_bot_witness:
  "case storeAddBot calmEnv ''a'' ''g'' (oneBot, []) of (r, db', h') \<Rightarrow> (\<exists>e. r = Inl e) \<and> db' = oneBot"
  using store_add_bot [of calmEnv "[]" "''a''" "''g''" oneBot]
  by (simp add: oneBot_def)

text \<open>
  C39: A room that was stored is read back with the room, name and category of its last upsert; its
  guild is that of the row's first insert, which later upserts do not change; other channels keep
  their rows.
\<close>

theorem store_room_roundtrip:
  assumes "storeUpsertRoom env r (db, h) = (None, db', h')"
    and "askErr env h' (DbExec ''GetRoom'' [formatUint ch]) = None"
  shows "fst (storeGetRoom env ch db' h') =
     Inr (if ch = rmDiscordChannel r
          then Some (r\<lparr>rmGuildID := (case gget (dbRooms db) ch of None \<Rightarrow> rmGuildID r | Some old \<Rightarrow> rrGuild old)\<rparr>)
          else map_option (scanRoom ch) (gget (dbRooms db) ch))"
  using assms
  by (cases r)
    (auto simp: storeUpsertRoom_def storeGetRoom_def callErr_def gget_upsertRow scanRoom_def Let_def
      split: option.splits)

definition oneRoom :: database where
  "oneRoom = \<lparr>dbBots = [], dbBotSeq = 0,
     dbRooms = [(500, \<lparr>rrMatrix = ''!q:s'', rrName = '''', rrGuild = ''g1'', rrCategory = 0\<rparr>)],
     dbGuilds = []\<rparr>"

theorem store_room_roundtrip_witness:
  "fst (storeGetRoom calmEnv 500
     (fst (snd (storeUpsertRoom calmEnv (roomOf ''g2'' 500 (''!r:s'', ''General'', 7)) (oneRoom, []))))
     (snd (snd (storeUpsertRoom calmEnv (roomOf ''g2'' 500 (''!r:s'', ''General'', 7)) (oneRoom, []))))) =
   Inr (Some (roomOf ''g1'' 500 (''!r:s'', ''General'', 7)))"
proof -
  let ?r = "roomOf ''g2'' 500 (''!r:s'', ''General'', 7)"
  obtain db' h' where u: "storeUpsertRoom calmEnv ?r (oneRoom, []) = (None, db', h')"
    by (simp add: storeUpsertRoom_def callErr_def)
  show ?thesis
    using store_room_roundtrip [OF u, of 500]
    by (simp only: u fst_conv snd_conv) (simp add: roomOf_def gget_def oneRoom_def)
qed

end
