(* ===== verification/GoCrypto.thy ===== *)
theory GoCrypto
  imports Prelude
begin

text \<open>
  The two functions of Go's standard library behind the LiveKit room name: SHA-256
  (\<^verbatim>\<open>crypto/sha256\<close>, FIPS 180-4) and unpadded standard base64 (\<^verbatim>\<open>base64.RawStdEncoding\<close>).
\<close>

unbundle bit_operations_syntax

type_synonym u32 = "32 word"

section \<open>SHA-256\<close>

text \<open>
  FIPS 180-4 takes its constants from the primes: the first 32 bits of the fractional parts of the cube
  roots of the first 64 primes, and of the square roots of the first eight. \<open>rootFrom\<close> is the integer
  \<open>k\<close>-th root of \<open>n\<close>, found bit by bit from the highest.
\<close>

fun rootFrom :: "nat \<Rightarrow> nat \<Rightarrow> int \<Rightarrow> int \<Rightarrow> int" where
  "rootFrom 0 k n r = r"
| "rootFrom (Suc b) k n r = rootFrom b k n (if (r + 2 ^ b) ^ k \<le> n then r + 2 ^ b else r)"

definition primesTo :: "int \<Rightarrow> int list" where
  "primesTo n = filter (\<lambda>p. list_all (\<lambda>d. p mod d \<noteq> 0) [2..p - 1]) [2..n]"

definition fractionBits :: "nat \<Rightarrow> int \<Rightarrow> u32" where
  "fractionBits k p = word_of_int (rootFrom 40 k (p * 2 ^ (32 * k)) 0)"

definition sha256K :: "u32 list" where
  "sha256K = map (fractionBits 3) (primesTo 311)"

definition sha256H0 :: "u32 \<times> u32 \<times> u32 \<times> u32 \<times> u32 \<times> u32 \<times> u32 \<times> u32" where
  "sha256H0 = (fractionBits 2 2, fractionBits 2 3, fractionBits 2 5, fractionBits 2 7,
     fractionBits 2 11, fractionBits 2 13, fractionBits 2 17, fractionBits 2 19)"

definition rotr32 :: "nat \<Rightarrow> u32 \<Rightarrow> u32" where
  "rotr32 n w = (drop_bit n w) OR (push_bit (32 - n) w)"

definition smallSigma0 :: "u32 \<Rightarrow> u32" where
  "smallSigma0 w = rotr32 7 w XOR rotr32 18 w XOR drop_bit 3 w"

definition smallSigma1 :: "u32 \<Rightarrow> u32" where
  "smallSigma1 w = rotr32 17 w XOR rotr32 19 w XOR drop_bit 10 w"

definition bigSigma0 :: "u32 \<Rightarrow> u32" where
  "bigSigma0 w = rotr32 2 w XOR rotr32 13 w XOR rotr32 22 w"

definition bigSigma1 :: "u32 \<Rightarrow> u32" where
  "bigSigma1 w = rotr32 6 w XOR rotr32 11 w XOR rotr32 25 w"

definition choose32 :: "u32 \<Rightarrow> u32 \<Rightarrow> u32 \<Rightarrow> u32" where
  "choose32 e f g = (e AND f) XOR ((NOT e) AND g)"

definition majority32 :: "u32 \<Rightarrow> u32 \<Rightarrow> u32 \<Rightarrow> u32" where
  "majority32 a b c = (a AND b) XOR (a AND c) XOR (b AND c)"

text \<open>The message schedule, built from the newest word backwards.\<close>

fun extendSchedule :: "nat \<Rightarrow> u32 list \<Rightarrow> u32 list" where
  "extendSchedule 0 ws = ws"
| "extendSchedule (Suc n) ws =
     extendSchedule n ((smallSigma1 (ws ! 1) + ws ! 6 + smallSigma0 (ws ! 14) + ws ! 15) # ws)"

type_synonym sha256State = "u32 \<times> u32 \<times> u32 \<times> u32 \<times> u32 \<times> u32 \<times> u32 \<times> u32"

fun sha256Round :: "sha256State \<Rightarrow> u32 \<times> u32 \<Rightarrow> sha256State" where
  "sha256Round (a, b, c, d, e, f, g, h) (k, w) =
     (let t1 = h + bigSigma1 e + choose32 e f g + k + w;
          t2 = bigSigma0 a + majority32 a b c
      in (t1 + t2, a, b, c, d + t1, e, f, g))"

fun addState :: "sha256State \<Rightarrow> sha256State \<Rightarrow> sha256State" where
  "addState (a, b, c, d, e, f, g, h) (a', b', c', d', e', f', g', h') =
     (a + a', b + b', c + c', d + d', e + e', f + f', g + g', h + h')"

definition sha256Block :: "sha256State \<Rightarrow> u32 list \<Rightarrow> sha256State" where
  "sha256Block hs block =
     addState hs (foldl sha256Round hs (zip sha256K (rev (extendSchedule 48 (rev block)))))"

fun beWords :: "bytes \<Rightarrow> u32 list" where
  "beWords (a # b # c # d # bs) =
     (ucast a * 0x1000000 + ucast b * 0x10000 + ucast c * 0x100 + ucast d) # beWords bs"
| "beWords _ = []"

definition wordBytes :: "u32 \<Rightarrow> bytes" where
  "wordBytes w = [ucast (drop_bit 24 w), ucast (drop_bit 16 w), ucast (drop_bit 8 w), ucast w]"

definition beLength :: "nat \<Rightarrow> bytes" where
  "beLength n = (let w = of_nat (8 * n) :: u64 in
     map (\<lambda>i. ucast (drop_bit i w)) [56, 48, 40, 32, 24, 16, 8, 0])"

definition sha256Pad :: "bytes \<Rightarrow> bytes" where
  "sha256Pad msg = msg @ [0x80] @ replicate ((119 - length msg mod 64) mod 64) 0 @ beLength (length msg)"

fun sha256Blocks :: "nat \<Rightarrow> sha256State \<Rightarrow> u32 list \<Rightarrow> sha256State" where
  "sha256Blocks 0 hs ws = hs"
| "sha256Blocks (Suc n) hs ws = sha256Blocks n (sha256Block hs (take 16 ws)) (drop 16 ws)"

fun stateWords :: "sha256State \<Rightarrow> u32 list" where
  "stateWords (a, b, c, d, e, f, g, h) = [a, b, c, d, e, f, g, h]"

definition sha256 :: "bytes \<Rightarrow> bytes" where
  "sha256 msg =
     (let p = sha256Pad msg
      in concat (map wordBytes (stateWords (sha256Blocks (length p div 64) sha256H0 (beWords p)))))"

lemma length_stateWords [simp]: "length (stateWords s) = 8"
  by (cases s rule: stateWords.cases) simp

lemma length_sha256Pad: "length (sha256Pad msg) mod 64 = 0"
proof -
  have "length (sha256Pad msg) = length msg + 9 + (119 - length msg mod 64) mod 64"
    by (simp add: sha256Pad_def beLength_def Let_def)
  moreover have "(n + 9 + (119 - n mod 64) mod 64) mod 64 = 0" for n :: nat
  proof -
    define r where "r = n mod 64"
    define q where "q = n div 64"
    have n: "n = 64 * q + r" and r: "r < 64" by (simp_all add: r_def q_def)
    have "(64 * q + r + 9 + (119 - r) mod 64) mod 64 = 0"
    proof (cases "r \<le> 55")
      case True
      then have "(119 - r) mod 64 = 55 - r" by (simp add: mod_if)
      then have "64 * q + r + 9 + (119 - r) mod 64 = 64 * (q + 1)" using True by simp
      then show ?thesis by (simp only: mod_mult_self1_is_0)
    next
      case False
      then have "(119 - r) mod 64 = 119 - r" by simp
      then have "64 * q + r + 9 + (119 - r) mod 64 = 64 * (q + 2)" using r by simp
      then show ?thesis by (simp only: mod_mult_self1_is_0)
    qed
    then show ?thesis by (simp only: r_def [symmetric] n [symmetric])
  qed
  ultimately show ?thesis by simp
qed

lemma length_concat_wordBytes: "length (concat (map wordBytes ws)) = 4 * length ws"
  by (induction ws) (simp_all add: wordBytes_def)

lemma length_sha256 [simp]: "length (sha256 msg) = 32"
  by (simp add: sha256_def Let_def length_concat_wordBytes)

section \<open>Unpadded base64\<close>

definition b64Alphabet :: string where
  "b64Alphabet = ''ABCDEFGHIJKLMNOPQRSTUVWXYZabcdefghijklmnopqrstuvwxyz0123456789+/''"

definition b64Char :: "nat \<Rightarrow> char" where
  "b64Char n = b64Alphabet ! n"

fun b64Encode :: "bytes \<Rightarrow> string" where
  "b64Encode [] = []"
| "b64Encode [a] = [b64Char (unat a div 4), b64Char (unat a mod 4 * 16)]"
| "b64Encode [a, b] =
     [b64Char (unat a div 4), b64Char (unat a mod 4 * 16 + unat b div 16), b64Char (unat b mod 16 * 4)]"
| "b64Encode (a # b # c # bs) =
     [b64Char (unat a div 4), b64Char (unat a mod 4 * 16 + unat b div 16),
      b64Char (unat b mod 16 * 4 + unat c div 64), b64Char (unat c mod 64)] @ b64Encode bs"

lemma length_b64Alphabet [simp]: "length b64Alphabet = 64"
  by (simp add: b64Alphabet_def)

lemma distinct_b64Alphabet: "distinct b64Alphabet"
  by (simp add: b64Alphabet_def)

lemma b64Char_inject: "m < 64 \<Longrightarrow> n < 64 \<Longrightarrow> b64Char m = b64Char n \<longleftrightarrow> m = n"
  by (simp add: b64Char_def nth_eq_iff_index_eq distinct_b64Alphabet)

lemma length_b64Encode: "length (b64Encode bs) = (4 * length bs + 2) div 3"
  by (induction bs rule: b64Encode.induct) simp_all

text \<open>The digits of a mixed-radix number are determined by it.\<close>

lemma radix_inject:
  "(x :: nat) * k + y = x' * k + y' \<Longrightarrow> y < k \<Longrightarrow> y' < k \<Longrightarrow> x = x' \<and> y = y'"
proof -
  assume eq: "x * k + y = x' * k + y'" and lt: "y < k" "y' < k"
  have "(x * k + y) div k = x" "(x * k + y) mod k = y" using lt by simp_all
  moreover have "(x' * k + y') div k = x'" "(x' * k + y') mod k = y'" using lt by simp_all
  ultimately show ?thesis using eq by metis
qed

lemma byte_digits:
  fixes b :: u8
  shows "unat b div 4 < 64" "unat b div 16 < 16" "unat b div 64 < 4"
proof -
  have "unat b < 256" using unsigned_less [of b] by simp
  then show "unat b div 4 < 64" "unat b div 16 < 16" "unat b div 64 < 4" by simp_all
qed

lemma sextet_bounds:
  fixes a b :: u8
  shows "unat a mod 4 * 16 + unat b div 16 < 64" "unat a mod 16 * 4 + unat b div 64 < 64"
    "unat a mod 4 * 16 < 64" "unat a mod 16 * 4 < 64" "unat a mod 64 < 64"
  using byte_digits(2,3) [of b] mod_less_divisor [of 4 "unat a"] mod_less_divisor [of 16 "unat a"]
  by linarith+

lemma byte_eq:
  fixes a b :: u8
  assumes "unat a div k = unat b div k" and "unat a mod k = unat b mod k"
  shows "a = b"
  using assms by (metis div_mult_mod_eq word_unat_eq_iff)

lemma sextet_inject:
  fixes a a' b b' :: u8
  shows "unat a mod 4 * 16 + unat b div 16 = unat a' mod 4 * 16 + unat b' div 16 \<Longrightarrow>
      unat a mod 4 = unat a' mod 4 \<and> unat b div 16 = unat b' div 16"
    and "unat a mod 16 * 4 + unat b div 64 = unat a' mod 16 * 4 + unat b' div 64 \<Longrightarrow>
      unat a mod 16 = unat a' mod 16 \<and> unat b div 64 = unat b' div 64"
  using radix_inject byte_digits by blast+

lemma b64CharD: "b64Char m = b64Char n \<Longrightarrow> m < 64 \<Longrightarrow> n < 64 \<Longrightarrow> m = n"
  by (simp add: b64Char_inject)

lemma b64Encode_inject: "length bs = length cs \<Longrightarrow> b64Encode bs = b64Encode cs \<Longrightarrow> bs = cs"
proof (induction bs arbitrary: cs rule: b64Encode.induct)
  case 1
  then show ?case by simp
next
  case (2 a)
  then obtain a' where cs: "cs = [a']" by (cases cs) auto
  from 2(2) have e: "b64Char (unat a div 4) = b64Char (unat a' div 4)"
    "b64Char (unat a mod 4 * 16) = b64Char (unat a' mod 4 * 16)"
    unfolding cs by simp_all
  have "unat a mod 4 * 16 = unat a' mod 4 * 16"
    by (rule b64CharD [OF e(2) sextet_bounds(3) sextet_bounds(3)])
  then show ?case using b64CharD [OF e(1) byte_digits(1) byte_digits(1)] byte_eq unfolding cs by simp
next
  case (3 a b)
  then obtain a' b' where cs: "cs = [a', b']" by (cases cs; cases "tl cs") auto
  from 3(2) have e: "b64Char (unat a div 4) = b64Char (unat a' div 4)"
    "b64Char (unat a mod 4 * 16 + unat b div 16) = b64Char (unat a' mod 4 * 16 + unat b' div 16)"
    "b64Char (unat b mod 16 * 4) = b64Char (unat b' mod 16 * 4)"
    unfolding cs by simp_all
  have a: "unat a div 4 = unat a' div 4" by (rule b64CharD [OF e(1) byte_digits(1) byte_digits(1)])
  have ab: "unat a mod 4 = unat a' mod 4 \<and> unat b div 16 = unat b' div 16"
    by (rule sextet_inject(1) [OF b64CharD [OF e(2) sextet_bounds(1) sextet_bounds(1)]])
  have "unat b mod 16 * 4 = unat b' mod 16 * 4"
    by (rule b64CharD [OF e(3) sextet_bounds(4) sextet_bounds(4)])
  then have b: "unat b mod 16 = unat b' mod 16" by simp
  show ?case
    using byte_eq [OF a conjunct1 [OF ab]] byte_eq [OF conjunct2 [OF ab] b] unfolding cs by simp
next
  case (4 a b c bs)
  then obtain a' b' c' cs' where cs: "cs = a' # b' # c' # cs'"
    by (cases cs; cases "tl cs"; cases "tl (tl cs)") auto
  from 4(3) have e: "b64Char (unat a div 4) = b64Char (unat a' div 4)"
    "b64Char (unat a mod 4 * 16 + unat b div 16) = b64Char (unat a' mod 4 * 16 + unat b' div 16)"
    "b64Char (unat b mod 16 * 4 + unat c div 64) = b64Char (unat b' mod 16 * 4 + unat c' div 64)"
    "b64Char (unat c mod 64) = b64Char (unat c' mod 64)" "b64Encode bs = b64Encode cs'"
    unfolding cs by simp_all
  have a: "unat a div 4 = unat a' div 4" by (rule b64CharD [OF e(1) byte_digits(1) byte_digits(1)])
  have ab: "unat a mod 4 = unat a' mod 4 \<and> unat b div 16 = unat b' div 16"
    by (rule sextet_inject(1) [OF b64CharD [OF e(2) sextet_bounds(1) sextet_bounds(1)]])
  have bc: "unat b mod 16 = unat b' mod 16 \<and> unat c div 64 = unat c' div 64"
    by (rule sextet_inject(2) [OF b64CharD [OF e(3) sextet_bounds(2) sextet_bounds(2)]])
  have c: "unat c mod 64 = unat c' mod 64"
    by (rule b64CharD [OF e(4) sextet_bounds(5) sextet_bounds(5)])
  have "bs = cs'" using 4(1) [OF _ e(5)] 4(2) cs by simp
  then show ?case
    using byte_eq [OF a conjunct1 [OF ab]] byte_eq [OF conjunct2 [OF ab] conjunct1 [OF bc]]
      byte_eq [OF conjunct2 [OF bc] c] unfolding cs by simp
qed

end
