(* ===== verification/Signaller.thy ===== *)
theory Signaller
  imports World GoCrypto
begin

text \<open>
  \<^verbatim>\<open>pkg/matrix/signalling.go\<close>: the Matrix side of a bridged Discord user. It computes the puppet's
  Matrix id, device, LiveKit identity and room alias, sends and withdraws \<^verbatim>\<open>m.call.member\<close> state
  events, renews them, sets puppet profiles, and turns the events of the \<^verbatim>\<open>/sync\<close> loop into calls of
  the bridge. The homeserver is the \<open>env\<close>.
\<close>

section \<open>Constants, configuration and state\<close>

definition callMemberEventType :: string where
  "callMemberEventType = ''org.matrix.msc3401.call.member''"

definition callApplication :: string where "callApplication = ''m.call''"
definition callScope :: string where "callScope = ''m.room''"
definition defaultSlotID :: string where "defaultSlotID = ''m.call#ROOM''"
definition membershipExpiryMs :: int where "membershipExpiryMs = 14400000"

record mxConfig =
  mxHomeserverURL :: string
  mxASToken :: string
  mxServerName :: string
  mxLKJWTService :: string

record memberInfo =
  miMxid :: string
  miDeviceID :: string
  miRoomID :: string
  miStateKey :: string

record signaller =
  sgConfig :: mxConfig
  sgActive :: "(u64, memberInfo) gomap"
  sgProfileChecked :: "(u64, bool) gomap"

definition NewSignaller :: "env \<Rightarrow> mxConfig \<Rightarrow> history \<Rightarrow> (goerror + signaller) \<times> history" where
  "NewSignaller env config h =
     (case callErr env (Hs (HsCreateAppService (mxHomeserverURL config) (mxServerName config))) h of
        (Some e, h1) \<Rightarrow> (Inl (wrapErr ''create appservice'' e), h1)
      | (None, h1) \<Rightarrow> (Inr \<lparr>sgConfig = config, sgActive = [], sgProfileChecked = []\<rparr>, h1))"

section \<open>Identities\<close>

definition discordMXID :: "signaller \<Rightarrow> u64 \<Rightarrow> string" where
  "discordMXID s uid = ''@discord_'' @ formatUint uid @ '':'' @ mxServerName (sgConfig s)"

definition deviceID :: "u64 \<Rightarrow> string" where
  "deviceID uid = ''VOICE_'' @ formatUint uid"

definition LiveKitIdentity :: "signaller \<Rightarrow> u64 \<Rightarrow> string" where
  "LiveKitIdentity s uid = discordMXID s uid @ '':'' @ deviceID uid"

definition bytesOf :: "string \<Rightarrow> bytes" where
  "bytesOf s = map (\<lambda>c. of_nat (of_char c)) s"

definition LiveKitRoomAlias :: "string \<Rightarrow> string" where
  "LiveKitRoomAlias roomID = b64Encode (sha256 (bytesOf (roomID @ ''|'' @ defaultSlotID)))"

text \<open>The bot user; \<^verbatim>\<open>BotIntent\<close> and \<^verbatim>\<open>Client\<close> act as it.\<close>

definition botMXID :: "signaller \<Rightarrow> string" where
  "botMXID s = ''@discord_voice_bridge:'' @ mxServerName (sgConfig s)"

definition memberStateKey :: "signaller \<Rightarrow> u64 \<Rightarrow> string" where
  "memberStateKey s uid = ''_'' @ discordMXID s uid @ ''_'' @ deviceID uid @ ''_'' @ callApplication"

section \<open>State events\<close>

text \<open>The content of an active membership.\<close>

definition memberContent :: "signaller \<Rightarrow> string \<Rightarrow> string \<Rightarrow> string \<Rightarrow> int \<Rightarrow> json" where
  "memberContent s mxid device roomID now = JObj [
     (''application'', JStr callApplication),
     (''call_id'', JStr ''''),
     (''scope'', JStr callScope),
     (''device_id'', JStr device),
     (''membershipID'', JStr (mxid @ '':'' @ device)),
     (''expires_ts'', JNum (of_int (now + membershipExpiryMs))),
     (''m.call.intent'', JStr ''audio''),
     (''focus_active'', JObj [(''type'', JStr ''livekit''), (''focus_selection'', JStr ''oldest_membership'')]),
     (''foci_preferred'', JArr [JObj [
        (''type'', JStr ''livekit''),
        (''livekit_service_url'', JStr (mxLKJWTService (sgConfig s))),
        (''livekit_alias'', JStr (LiveKitRoomAlias roomID))]])]"

text \<open>
  \<^verbatim>\<open>sendStateRetry\<close>: the loop from a given attempt on; at most three attempts, waiting one second
  longer after each, and giving up when the context is done.
\<close>

function sendStateFrom :: "env \<Rightarrow> effect \<Rightarrow> nat \<Rightarrow> history \<Rightarrow> goerror option \<times> history" where
  "sendStateFrom env send attempt h =
     (case callErr env send h of
        (None, h1) \<Rightarrow> (None, h1)
      | (Some e, h1) \<Rightarrow>
          (case ctxErr env h1 of
             Some ce \<Rightarrow> (Some ce, h1)
           | None \<Rightarrow>
               if attempt < 3 then sendStateFrom env send (attempt + 1) (h1 @ [SleepSec attempt])
               else (Some e, h1)))"
  by pat_completeness auto
termination
  by (relation "measure (\<lambda>(env, send, attempt, h). 3 - attempt)") auto

declare sendStateFrom.simps [simp del]

definition sendStateRetry ::
  "env \<Rightarrow> string \<Rightarrow> string \<Rightarrow> string \<Rightarrow> string \<Rightarrow> json \<Rightarrow> history \<Rightarrow> goerror option \<times> history" where
  "sendStateRetry env intent roomID evtType stateKey content h =
     sendStateFrom env (Hs (HsSendState intent roomID evtType stateKey content)) 1 h"

definition JoinCall ::
  "env \<Rightarrow> u64 \<Rightarrow> string \<Rightarrow> signaller \<times> history \<Rightarrow> goerror option \<times> signaller \<times> history" where
  "JoinCall env uid roomID sh =
     (let (s, h) = sh;
          mxid = discordMXID s uid;
          device = deviceID uid;
          stateKey = memberStateKey s uid;
          (_, h1) = callErr env (Hs (HsRegister mxid)) h;
          (err, h2) = callErr env (Hs (HsJoin mxid roomID)) h1
      in case err of
           Some e \<Rightarrow> (Some (wrapErr (''join room '' @ roomID @ '' as '' @ mxid) e), s, h2)
         | None \<Rightarrow>
             (case sendStateRetry env mxid roomID callMemberEventType stateKey
                     (memberContent s mxid device roomID (nowMs env h2)) h2 of
                (Some e, h3) \<Rightarrow> (Some (wrapErr (''send m.call.member for '' @ mxid) e), s, h3)
              | (None, h3) \<Rightarrow>
                  (None, s\<lparr>sgActive := gput uid
                     \<lparr>miMxid = mxid, miDeviceID = device, miRoomID = roomID, miStateKey = stateKey\<rparr>
                     (sgActive s)\<rparr>, h3)))"

definition LeaveCall ::
  "env \<Rightarrow> u64 \<Rightarrow> signaller \<times> history \<Rightarrow> goerror option \<times> signaller \<times> history" where
  "LeaveCall env uid sh =
     (let (s, h) = sh in
      case gget (sgActive s) uid of
        None \<Rightarrow> (None, s, h)
      | Some info \<Rightarrow>
          let s1 = s\<lparr>sgActive := gdel uid (sgActive s)\<rparr> in
          (case sendStateRetry env (miMxid info) (miRoomID info) callMemberEventType (miStateKey info) (JObj []) h of
             (Some e, h1) \<Rightarrow> (Some (wrapErr (''remove m.call.member for '' @ miMxid info) e), s1, h1)
           | (None, h1) \<Rightarrow> (None, s1, h1)))"

definition LeaveAll :: "env \<Rightarrow> signaller \<times> history \<Rightarrow> signaller \<times> history" where
  "LeaveAll env sh =
     (let (s, h) = sh; ids = pick (rangeOrder env h) (gkeys (sgActive s))
      in fold (\<lambda>uid sh. snd (LeaveCall env uid sh)) ids (s, h))"

section \<open>Profiles\<close>

definition isHexDigit :: "char \<Rightarrow> bool" where
  "isHexDigit c \<longleftrightarrow> c \<in> set ''0123456789abcdefABCDEF''"

text \<open>\<^verbatim>\<open>^[0-9a-fA-F]{32}$|^a_[0-9a-fA-F]{32}$\<close>\<close>

definition avatarHashOk :: "string \<Rightarrow> bool" where
  "avatarHashOk s \<longleftrightarrow>
     (length s = 32 \<and> list_all isHexDigit s) \<or>
     (hasPrefix s ''a_'' \<and> length s = 34 \<and> list_all isHexDigit (drop 2 s))"

definition avatarURL :: "u64 \<Rightarrow> string \<Rightarrow> string" where
  "avatarURL uid hash =
     ''https://cdn.discordapp.com/avatars/'' @ formatUint uid @ ''/'' @ hash @ ''.png?size=256''"

definition uploadAndSetAvatar :: "env \<Rightarrow> string \<Rightarrow> string \<Rightarrow> history \<Rightarrow> history" where
  "uploadAndSetAvatar env mxid url h =
     (let h1 = h @ [HttpGet url] in
      case askHttp env h (HttpGet url) of
        Inl _ \<Rightarrow> h1
      | Inr resp \<Rightarrow>
          if httpStatus resp \<noteq> 200 then h1
          else (case httpBody resp of
                  Inl _ \<Rightarrow> h1
                | Inr body \<Rightarrow>
                    (case callStr env (Hs (HsUploadMedia mxid (take (512 * 1024) body))) h1 of
                       (Inl _, h2) \<Rightarrow> h2
                     | (Inr uri, h2) \<Rightarrow> snd (callErr env (Hs (HsSetAvatarURL mxid uri)) h2))))"

definition EnsureProfile ::
  "env \<Rightarrow> u64 \<Rightarrow> string \<Rightarrow> string \<Rightarrow> signaller \<times> history \<Rightarrow> signaller \<times> history" where
  "EnsureProfile env uid displayName avatarHash sh =
     (let (s, h) = sh in
      if ggetz False (sgProfileChecked s) uid then (s, h)
      else
        let s1 = s\<lparr>sgProfileChecked := gput uid True (sgProfileChecked s)\<rparr>;
            mxid = discordMXID s uid;
            (_, h1) = callErr env (Hs (HsRegister mxid)) h;
            (profile, h2) = callStr env (Hs (HsGetProfile mxid mxid)) h1;
            named = (case profile of Inl _ \<Rightarrow> False | Inr name \<Rightarrow> name \<noteq> '''')
        in if named then (s1, h2)
           else
             let h3 = (if displayName \<noteq> ''''
                       then snd (callErr env (Hs (HsSetDisplayName mxid displayName)) h2) else h2)
             in (s1, if avatarHash \<noteq> '''' \<and> avatarHashOk avatarHash
                     then uploadAndSetAvatar env mxid (avatarURL uid avatarHash) h3 else h3))"

text \<open>The display name of a Matrix user, or its localpart.\<close>

definition localpart :: "string \<Rightarrow> string" where
  "localpart user =
     (case user of
        c # rest \<Rightarrow> if rest \<noteq> [] \<and> c = CHR ''@'' then takeWhile (\<lambda>c. c \<noteq> CHR '':'') rest else user
      | [] \<Rightarrow> [])"

definition GetDisplayName :: "env \<Rightarrow> signaller \<Rightarrow> string \<Rightarrow> history \<Rightarrow> string \<times> history" where
  "GetDisplayName env s userID h =
     (case callStr env (Hs (HsGetProfile (botMXID s) userID)) h of
        (Inr name, h1) \<Rightarrow> (if name \<noteq> '''' then name else localpart userID, h1)
      | (Inl _, h1) \<Rightarrow> (localpart userID, h1))"

section \<open>Renewal\<close>

definition renewalPeriodMs :: int where "renewalPeriodMs = 10800000"

definition renewOne :: "env \<Rightarrow> signaller \<Rightarrow> memberInfo \<Rightarrow> history \<Rightarrow> history" where
  "renewOne env s info h =
     snd (callErr env (Hs (HsSendState (miMxid info) (miRoomID info) callMemberEventType (miStateKey info)
       (memberContent s (miMxid info) (miDeviceID info) (miRoomID info) (nowMs env h)))) h)"

text \<open>One tick: the members are copied under the lock, then sent one by one.\<close>

definition activeMembers :: "env \<Rightarrow> signaller \<Rightarrow> history \<Rightarrow> memberInfo list" where
  "activeMembers env s h =
     List.map_filter (gget (sgActive s)) (pick (rangeOrder env h) (gkeys (sgActive s)))"

definition renewTick :: "env \<Rightarrow> signaller \<Rightarrow> history \<Rightarrow> history" where
  "renewTick env s h = fold (renewOne env s) (activeMembers env s h) h"

section \<open>The sync loop\<close>

text \<open>\<^verbatim>\<open>OnSync\<close>: the flag is raised by the first incremental response.\<close>

definition onSync :: "string \<Rightarrow> bool \<Rightarrow> bool" where
  "onSync since initialSyncDone = (if since \<noteq> '''' \<and> \<not> initialSyncDone then True else initialSyncDone)"

text \<open>
  What a call member event means to the bridge: \<open>None\<close> when it is ignored, otherwise room, sender and
  whether the sender has joined. \<open>raw\<close> is \<^verbatim>\<open>evt.Content.Raw\<close>.
\<close>

definition callMemberEvent ::
  "int \<Rightarrow> bool \<Rightarrow> string \<Rightarrow> string \<Rightarrow> string option \<Rightarrow> json option \<Rightarrow> (string \<times> string \<times> bool) option" where
  "callMemberEvent now initialSyncDone room sender stateKey raw =
     (if \<not> initialSyncDone \<or> stateKey = None then None
      else case raw of
        None \<Rightarrow> Some (room, sender, False)
      | Some r \<Rightarrow>
          (case jField r ''application'' of
             None \<Rightarrow> Some (room, sender, False)
           | Some _ \<Rightarrow>
               (case jField r ''expires_ts'' of
                  Some (JNum ts) \<Rightarrow>
                    if truncRat ts < now then None else Some (room, sender, True)
                | _ \<Rightarrow> Some (room, sender, True))))"

text \<open>An invitation of the bot itself is accepted.\<close>

definition memberEvent ::
  "env \<Rightarrow> signaller \<Rightarrow> string \<Rightarrow> string option \<Rightarrow> string option \<Rightarrow> history \<Rightarrow> history" where
  "memberEvent env s room stateKey membership h =
     (if (case stateKey of None \<Rightarrow> '''' | Some k \<Rightarrow> k) = botMXID s \<and> membership = Some ''invite''
      then snd (callErr env (Hs (HsJoin (botMXID s) room)) h) else h)"

text \<open>A message: only commands of admin users reach the command handler, which may panic.\<close>

definition messageEvent ::
  "env \<Rightarrow> (string \<Rightarrow> bool) \<Rightarrow> (string \<Rightarrow> string \<Rightarrow> string \<Rightarrow> 's \<times> history \<Rightarrow> (string \<times> 's \<times> history) option)
    \<Rightarrow> string \<Rightarrow> bool \<Rightarrow> string \<Rightarrow> string \<Rightarrow> string option \<Rightarrow> 's \<times> history \<Rightarrow> ('s \<times> history) option" where
  "messageEvent env isAdmin handle botUser initialSyncDone room sender body st =
     (if \<not> initialSyncDone then Some st
      else case body of
        None \<Rightarrow> Some st
      | Some msg \<Rightarrow>
          if \<not> hasPrefix msg ''!'' then Some st
          else if \<not> isAdmin sender then Some st
          else map_option (\<lambda>(reply, s1, h1).
                 if reply \<noteq> [] then (s1, snd (callErr env (Hs (HsSendText botUser room reply)) h1)) else (s1, h1))
               (handle room sender msg st))"

text \<open>
  \<^verbatim>\<open>StartSync\<close> up to the loop: create the client, make sure the bot has a display name.
\<close>

definition StartSync :: "env \<Rightarrow> signaller \<Rightarrow> history \<Rightarrow> goerror option \<times> history" where
  "StartSync env s h =
     (case callErr env (Hs (HsNewClient (mxHomeserverURL (sgConfig s)) (botMXID s))) h of
        (Some e, h1) \<Rightarrow> (Some (wrapErr ''create sync client'' e), h1)
      | (None, h1) \<Rightarrow>
          let (_, h2) = callErr env (Hs (HsRegister (botMXID s))) h1;
              (profile, h3) = callStr env (Hs (HsGetProfile (botMXID s) (botMXID s))) h2;
              unnamed = (case profile of Inl _ \<Rightarrow> True | Inr name \<Rightarrow> name = '''')
          in (None, if unnamed then snd (callErr env (Hs (HsSetDisplayName (botMXID s) ''Voice Bridge'')) h3)
                    else h3))"

text \<open>The retry loop around \<^verbatim>\<open>SyncWithContext\<close>: the waits, in milliseconds, for its outcomes.\<close>

datatype syncOutcome = SyncOk | SyncErr | SyncCtxDone

fun syncWaits :: "nat \<Rightarrow> syncOutcome list \<Rightarrow> nat list" where
  "syncWaits backoff [] = []"
| "syncWaits backoff (SyncCtxDone # os) = []"
| "syncWaits backoff (SyncErr # os) = backoff # syncWaits (min (backoff * 2) 8000) os"
| "syncWaits backoff (SyncOk # os) = syncWaits 500 os"

section \<open>Identities are unambiguous\<close>

lemma separator_unique:
  assumes "c \<notin> set w" and "c \<notin> set w'" and "w @ c # r = w' @ c # r'"
  shows "w = w'"
proof -
  have tw: "takeWhile (\<lambda>x. x \<noteq> c) (v @ c # q) = v" if "c \<notin> set v" for v q
    using that by (induction v) auto
  show ?thesis using tw [OF assms(1), of r] tw [OF assms(2), of r'] assms(3) by simp
qed

lemma colon_formatNat [simp]: "CHR '':'' \<notin> set (formatNat n)"
proof
  assume "CHR '':'' \<in> set (formatNat n)"
  from formatNat_digits [OF this] show False by (simp add: digitVal_def)
qed

lemma discordMXID_inject [simp]: "discordMXID s u = discordMXID s v \<longleftrightarrow> u = v"
proof
  assume "discordMXID s u = discordMXID s v"
  then have "formatUint u @ CHR '':'' # mxServerName (sgConfig s) = formatUint v @ CHR '':'' # mxServerName (sgConfig s)"
    by (simp add: discordMXID_def)
  then have "formatUint u = formatUint v"
    by (rule separator_unique [rotated 2]) simp_all
  then show "u = v" by simp
qed simp

lemma discordMXID_prefix [simp]: "hasPrefix (discordMXID s u) ''@discord_''"
  by (simp only: discordMXID_def hasPrefix_append)

lemma botMXID_prefix [simp]: "hasPrefix (botMXID s) ''@discord_''"
  by (simp add: botMXID_def hasPrefix_def)

lemma discordMXID_not_bot [simp]: "discordMXID s u \<noteq> botMXID s"
proof
  assume eq: "discordMXID s u = botMXID s"
  obtain c cs where f: "formatUint u = c # cs"
    using formatNat_nonempty by (meson list.exhaust)
  with eq have "c = CHR ''v''"
    by (simp add: discordMXID_def botMXID_def)
  moreover have "digitVal c \<noteq> None"
    using formatNat_digits [of c "unat u"] f by simp
  ultimately show False by (simp add: digitVal_def)
qed

lemma memberStateKey_inject [simp]: "memberStateKey s u = memberStateKey s v \<longleftrightarrow> u = v"
proof
  assume "memberStateKey s u = memberStateKey s v"
  then have "formatUint u @ CHR '':'' # (mxServerName (sgConfig s) @ ''_'' @ deviceID u @ ''_'' @ callApplication) =
      formatUint v @ CHR '':'' # (mxServerName (sgConfig s) @ ''_'' @ deviceID v @ ''_'' @ callApplication)"
    by (simp add: memberStateKey_def discordMXID_def)
  then have "formatUint u = formatUint v"
    by (rule separator_unique [rotated 2]) simp_all
  then show "u = v" by simp
qed simp

lemma LiveKitIdentity_inject [simp]: "LiveKitIdentity s u = LiveKitIdentity s v \<longleftrightarrow> u = v"
proof
  assume "LiveKitIdentity s u = LiveKitIdentity s v"
  then have "formatUint u @ CHR '':'' # (mxServerName (sgConfig s) @ '':'' @ deviceID u) =
      formatUint v @ CHR '':'' # (mxServerName (sgConfig s) @ '':'' @ deviceID v)"
    by (simp add: LiveKitIdentity_def discordMXID_def)
  then have "formatUint u = formatUint v"
    by (rule separator_unique [rotated 2]) simp_all
  then show "u = v" by simp
qed simp

section \<open>Retries\<close>

lemma sendStateFrom_run:
  assumes "1 \<le> k" and "k \<le> 3" and "\<And>n. send \<noteq> SleepSec n"
  shows "\<exists>hs. snd (sendStateFrom env send k h) = h @ hs \<and> hs \<noteq> [] \<and> last hs = send \<and>
     set hs \<subseteq> insert send (SleepSec ` {1, 2}) \<and>
     length (filter (\<lambda>e. e = send) hs) \<le> 4 - k \<and>
     (fst (sendStateFrom env send k h) = None \<longleftrightarrow> askErr env (h @ butlast hs) send = None)"
  using assms
proof (induction env send k h rule: sendStateFrom.induct)
  case (1 env send k h)
  show ?case
  proof (cases "askErr env h send")
    case None
    then show ?thesis
      using "1.prems" by (auto simp: sendStateFrom.simps [of env send k h] callErr_def intro!: exI [of _ "[send]"])
  next
    case err: (Some e)
    show ?thesis
    proof (cases "ctxErr env (h @ [send]) = None \<and> k < 3")
      case True
      let ?h = "(h @ [send]) @ [SleepSec k]"
      have eq: "sendStateFrom env send k h = sendStateFrom env send (k + 1) ?h"
        using err True by (simp add: sendStateFrom.simps [of env send k h] callErr_def)
      obtain hs where hs: "snd (sendStateFrom env send (k + 1) ?h) = ?h @ hs" "hs \<noteq> []" "last hs = send"
          "set hs \<subseteq> insert send (SleepSec ` {1, 2})" "length (filter (\<lambda>e. e = send) hs) \<le> 4 - (k + 1)"
          "fst (sendStateFrom env send (k + 1) ?h) = None \<longleftrightarrow> askErr env (?h @ butlast hs) send = None"
        using "1.IH" [of "Some e" "h @ [send]" e] err True "1.prems" by (auto simp: callErr_def)
      have k12: "k \<in> {1, 2}" using True "1.prems" by auto
      have ne: "SleepSec k \<noteq> send" using "1.prems"(3) by metis
      with hs True show ?thesis
        using ne k12 by (intro exI [of _ "[send, SleepSec k] @ hs"]) (auto simp: eq)
    next
      case False
      then show ?thesis
        using err "1.prems"
        by (auto simp: sendStateFrom.simps [of env send k h] callErr_def split: option.splits
            intro!: exI [of _ "[send]"])
    qed
  qed
qed

lemma sendStateRetry_run:
  obtains hs where
    "snd (sendStateRetry env i r t k c h) = h @ hs" "hs \<noteq> []" "last hs = Hs (HsSendState i r t k c)"
    "set hs \<subseteq> insert (Hs (HsSendState i r t k c)) (SleepSec ` {1, 2})"
    "length (filter (\<lambda>e. e = Hs (HsSendState i r t k c)) hs) \<le> 3"
    "fst (sendStateRetry env i r t k c h) = None \<longleftrightarrow>
       askErr env (h @ butlast hs) (Hs (HsSendState i r t k c)) = None"
proof -
  let ?e = "Hs (HsSendState i r t k c)"
  have "\<exists>hs. snd (sendStateFrom env ?e 1 h) = h @ hs \<and> hs \<noteq> [] \<and> last hs = ?e \<and>
     set hs \<subseteq> insert ?e (SleepSec ` {1, 2}) \<and> length (filter (\<lambda>e. e = ?e) hs) \<le> 4 - 1 \<and>
     (fst (sendStateFrom env ?e 1 h) = None \<longleftrightarrow> askErr env (h @ butlast hs) ?e = None)"
    by (rule sendStateFrom_run) simp_all
  then show ?thesis
    using that by (auto simp: sendStateRetry_def simp del: last_append)
qed

section \<open>Active memberships\<close>

text \<open>An entry of the active map is the membership of its own user.\<close>

definition sgWF :: "signaller \<Rightarrow> bool" where
  "sgWF s \<longleftrightarrow> (\<forall>u i. gget (sgActive s) u = Some i \<longrightarrow>
     miMxid i = discordMXID s u \<and> miDeviceID i = deviceID u \<and> miStateKey i = memberStateKey s u)"

definition joinedInfo :: "signaller \<Rightarrow> u64 \<Rightarrow> string \<Rightarrow> memberInfo" where
  "joinedInfo s uid roomID = \<lparr>miMxid = discordMXID s uid, miDeviceID = deviceID uid, miRoomID = roomID,
     miStateKey = memberStateKey s uid\<rparr>"

lemma JoinCall_state:
  "JoinCall env uid room (s, h) = (r, s', h') \<Longrightarrow>
   s' = (if r = None then s\<lparr>sgActive := gput uid (joinedInfo s uid room) (sgActive s)\<rparr> else s)"
  by (auto simp: JoinCall_def joinedInfo_def Let_def split: prod.splits option.splits)

lemma LeaveCall_state:
  "LeaveCall env uid (s, h) = (r, s', h') \<Longrightarrow>
   s' = (if gget (sgActive s) uid = None then s else s\<lparr>sgActive := gdel uid (sgActive s)\<rparr>)"
  by (auto simp: LeaveCall_def Let_def split: prod.splits option.splits)

lemma LeaveCall_active: "gget (sgActive (fst (snd (LeaveCall env uid (s, h))))) u =
    (if u = uid then None else gget (sgActive s) u)"
  using LeaveCall_state [of env uid s h] by (cases "LeaveCall env uid (s, h)") auto

lemma update_keeps_ids [simp]:
  "discordMXID (s\<lparr>sgActive := a\<rparr>) = discordMXID s"
  "memberStateKey (s\<lparr>sgActive := a\<rparr>) = memberStateKey s"
  "discordMXID (s\<lparr>sgProfileChecked := p\<rparr>) = discordMXID s"
  "memberStateKey (s\<lparr>sgProfileChecked := p\<rparr>) = memberStateKey s"
  "botMXID (s\<lparr>sgActive := a\<rparr>) = botMXID s"
  "botMXID (s\<lparr>sgProfileChecked := p\<rparr>) = botMXID s"
  by (simp_all add: discordMXID_def memberStateKey_def botMXID_def fun_eq_iff)

lemma JoinCall_config: "sgConfig (fst (snd (JoinCall env uid room (s, h)))) = sgConfig s"
  using JoinCall_state [of env uid room s h] by (cases "JoinCall env uid room (s, h)") auto

lemma LeaveCall_config: "sgConfig (fst (snd (LeaveCall env uid (s, h)))) = sgConfig s"
  using LeaveCall_state [of env uid s h] by (cases "LeaveCall env uid (s, h)") auto

lemma EnsureProfile_state:
  "fst (EnsureProfile env uid n a (s, h)) =
     (if ggetz False (sgProfileChecked s) uid then s
      else s\<lparr>sgProfileChecked := gput uid True (sgProfileChecked s)\<rparr>)"
  by (simp add: EnsureProfile_def Let_def split: prod.splits)

datatype signallerOp =
    JoinOp u64 string
  | LeaveOp u64
  | LeaveAllOp
  | EnsureProfileOp u64 string string
  | RenewOp

fun signallerStep :: "env \<Rightarrow> signallerOp \<Rightarrow> signaller \<times> history \<Rightarrow> signaller \<times> history" where
  "signallerStep env (JoinOp u r) sh = snd (JoinCall env u r sh)"
| "signallerStep env (LeaveOp u) sh = snd (LeaveCall env u sh)"
| "signallerStep env LeaveAllOp sh = LeaveAll env sh"
| "signallerStep env (EnsureProfileOp u n a) sh = EnsureProfile env u n a sh"
| "signallerStep env RenewOp sh = (fst sh, renewTick env (fst sh) (snd sh))"

lemma sgWF_JoinCall: "sgWF s \<Longrightarrow> sgWF (fst (snd (JoinCall env u r (s, h))))"
  using JoinCall_state [of env u r s h]
  by (cases "JoinCall env u r (s, h)") (auto simp: sgWF_def joinedInfo_def split: if_splits)

lemma sgWF_LeaveCall: "sgWF s \<Longrightarrow> sgWF (fst (snd (LeaveCall env u (s, h))))"
  using LeaveCall_state [of env u s h]
  by (cases "LeaveCall env u (s, h)") (auto simp: sgWF_def split: if_splits)

lemma sgWF_fold_LeaveCall:
  "sgWF (fst sh) \<Longrightarrow> sgWF (fst (fold (\<lambda>u sh. snd (LeaveCall env u sh)) us sh))"
proof (induction us arbitrary: sh)
  case (Cons u us)
  have "sgWF (fst (snd (LeaveCall env u sh)))"
    using sgWF_LeaveCall [OF Cons.prems, of env u "snd sh"] by simp
  then show ?case by (simp add: Cons.IH)
qed simp

lemma signallerStep_sgWF: "sgWF (fst sh) \<Longrightarrow> sgWF (fst (signallerStep env op sh))"
proof (cases sh; cases op)
  fix s h u n a
  assume "sgWF (fst sh)" "sh = (s, h)" "op = EnsureProfileOp u n a"
  then show ?thesis by (simp add: EnsureProfile_state sgWF_def)
qed (auto simp: sgWF_JoinCall sgWF_LeaveCall sgWF_fold_LeaveCall LeaveAll_def Let_def)

interpretation signaller_machine: event_machine "signallerStep env" "\<lambda>sh. sgWF (fst sh)" for env
  by unfold_locales (rule signallerStep_sgWF)

section \<open>Properties\<close>

text \<open>
  C38: Two Discord users never share a Matrix id, a state key or a LiveKit identity, and every puppet
  as well as the bot itself carries the prefix by which the bridge recognises its own events.
\<close>

theorem signaller_identities:
  "(discordMXID s u = discordMXID s v) = (u = v) \<and>
   (memberStateKey s u = memberStateKey s v) = (u = v) \<and>
   (LiveKitIdentity s u = LiveKitIdentity s v) = (u = v) \<and>
   discordMXID s u \<noteq> botMXID s \<and>
   hasPrefix (discordMXID s u) ''@discord_'' \<and> hasPrefix (botMXID s) ''@discord_''"
  by simp

text \<open>
  A LiveKit room name is 43 characters long, and two Matrix rooms get the same name only when
  SHA-256 collides on what is hashed for them.
\<close>

theorem signaller_room_alias:
  "length (LiveKitRoomAlias r) = 43 \<and>
   (LiveKitRoomAlias r = LiveKitRoomAlias r') =
     (sha256 (bytesOf (r @ ''|m.call#ROOM'')) = sha256 (bytesOf (r' @ ''|m.call#ROOM'')))"
proof -
  have "(b64Encode a = b64Encode b) = (a = b)" if "length a = length b" for a b
    using that b64Encode_inject by blast
  then show ?thesis
    by (simp add: LiveKitRoomAlias_def length_b64Encode defaultSlotID_def)
qed

text \<open>
  Sending a state event makes between one and three attempts, with waits of one and two seconds
  in between, stops at the first success, and reports success exactly when its last attempt succeeded.
\<close>

theorem signaller_retry_bounded:
  "\<exists>hs. snd (sendStateRetry env i r t k c h) = h @ hs \<and> last hs = Hs (HsSendState i r t k c) \<and>
     set hs \<subseteq> {Hs (HsSendState i r t k c), SleepSec 1, SleepSec 2} \<and>
     length (filter (\<lambda>e. e = Hs (HsSendState i r t k c)) hs) \<in> {1, 2, 3} \<and>
     (fst (sendStateRetry env i r t k c h) = None) =
        (askErr env (h @ butlast hs) (Hs (HsSendState i r t k c)) = None)"
proof -
  obtain hs where hs: "snd (sendStateRetry env i r t k c h) = h @ hs" "hs \<noteq> []"
      "last hs = Hs (HsSendState i r t k c)"
      "set hs \<subseteq> insert (Hs (HsSendState i r t k c)) (SleepSec ` {1, 2})"
      "length (filter (\<lambda>e. e = Hs (HsSendState i r t k c)) hs) \<le> 3"
      "fst (sendStateRetry env i r t k c h) = None \<longleftrightarrow>
         askErr env (h @ butlast hs) (Hs (HsSendState i r t k c)) = None"
    by (rule sendStateRetry_run)
  have "Hs (HsSendState i r t k c) \<in> set hs" using hs(2,3) by (metis last_in_set)
  then have "filter (\<lambda>e. e = Hs (HsSendState i r t k c)) hs \<noteq> []"
    by (auto simp: filter_empty_conv)
  then have "length (filter (\<lambda>e. e = Hs (HsSendState i r t k c)) hs) \<noteq> 0" by simp
  moreover have "n \<in> {1, 2, 3}" if "n \<le> 3" "n \<noteq> 0" for n :: nat using that by auto
  ultimately have "length (filter (\<lambda>e. e = Hs (HsSendState i r t k c)) hs) \<in> {1, 2, 3}"
    using hs(5) by blast
  with hs show ?thesis by (intro exI [of _ hs]) auto
qed

text \<open>
  In every state reached from a fresh signaller by joins, leaves, profile checks and renewals,
  whatever the homeserver answers, the membership recorded for a user is the user's own: its Matrix
  id, device and state key.
\<close>

theorem signaller_active_own:
  "case gget (sgActive (fst (fold (signallerStep env) ops
        (\<lparr>sgConfig = c, sgActive = [], sgProfileChecked = p\<rparr>, h)))) u of
     None \<Rightarrow> True
   | Some i \<Rightarrow>
       let s = fst (fold (signallerStep env) ops (\<lparr>sgConfig = c, sgActive = [], sgProfileChecked = p\<rparr>, h))
       in miMxid i = discordMXID s u \<and> miDeviceID i = deviceID u \<and> miStateKey i = memberStateKey s u"
proof -
  have "sgWF (fst (fold (signallerStep env) ops (\<lparr>sgConfig = c, sgActive = [], sgProfileChecked = p\<rparr>, h)))"
    by (rule signaller_machine.run_inv) (simp add: sgWF_def)
  then show ?thesis by (auto simp: sgWF_def Let_def split: option.split)
qed

text \<open>
  C36: A join that succeeds records the membership, and the next leave of that user sends an empty
  content to the same room under the same state key, forgets the user whatever the homeserver answers
  and touches no other user; a join that fails records nothing.
\<close>

theorem signaller_join_leave:
  "case JoinCall env u room (s, h) of (r, s1, h1) \<Rightarrow>
     if r = None
     then (\<exists>hs. h1 = h @ hs \<and> last hs = Hs (HsSendState (discordMXID s u) room callMemberEventType
              (memberStateKey s u) (memberContent s (discordMXID s u) (deviceID u) room (nowMs env (take (length h + 2) h1))))) \<and>
          (case LeaveCall env' u (s1, h1) of (r2, s2, h2) \<Rightarrow>
             gget (sgActive s2) = (gget (sgActive s))(u := None) \<and>
             last h2 = Hs (HsSendState (discordMXID s u) room callMemberEventType (memberStateKey s u) (JObj [])))
     else s1 = s"
proof -
  obtain r s1 h1 where j: "JoinCall env u room (s, h) = (r, s1, h1)" by (cases "JoinCall env u room (s, h)") auto
  show ?thesis
  proof (cases r)
    case (Some e)
    then show ?thesis using JoinCall_state [OF j] by (simp add: j)
  next
    case None
    let ?k = "memberStateKey s u"
    let ?h2 = "h @ [Hs (HsRegister (discordMXID s u)), Hs (HsJoin (discordMXID s u) room)]"
    let ?c = "memberContent s (discordMXID s u) (deviceID u) room (nowMs env ?h2)"
    have s1: "s1 = s\<lparr>sgActive := gput u (joinedInfo s u room) (sgActive s)\<rparr>"
      using JoinCall_state [OF j] None by simp
    have h1: "h1 = snd (sendStateRetry env (discordMXID s u) room callMemberEventType ?k ?c ?h2)"
      using j None by (auto simp: JoinCall_def callErr_def Let_def split: option.splits prod.splits)
    obtain hs where hs: "h1 = ?h2 @ hs" "hs \<noteq> []"
        "last hs = Hs (HsSendState (discordMXID s u) room callMemberEventType ?k ?c)"
      unfolding h1 by (rule sendStateRetry_run)
    have take: "take (length h + 2) h1 = ?h2" by (simp add: hs(1))
    obtain r2 s2 h2 where l: "LeaveCall env' u (s1, h1) = (r2, s2, h2)" by (cases "LeaveCall env' u (s1, h1)") auto
    have s2: "s2 = s1\<lparr>sgActive := gdel u (sgActive s1)\<rparr>"
      using LeaveCall_state [OF l] by (simp add: s1)
    have "h2 = snd (sendStateRetry env' (discordMXID s u) room callMemberEventType ?k (JObj []) h1)"
      using l by (auto simp: LeaveCall_def s1 joinedInfo_def Let_def split: option.splits prod.splits)
    then obtain hs2 where "h2 = h1 @ hs2" "hs2 \<noteq> []"
        "last hs2 = Hs (HsSendState (discordMXID s u) room callMemberEventType ?k (JObj []))"
      using sendStateRetry_run [of env' "discordMXID s u" room callMemberEventType ?k "JObj []" h1] by metis
    moreover have "gget (sgActive s2) = (gget (sgActive s))(u := None)"
      by (simp add: s1 s2 fun_eq_iff)
    moreover have "\<exists>hs'. h1 = h @ hs' \<and> last hs' = Hs (HsSendState (discordMXID s u) room callMemberEventType ?k ?c)"
      using hs by (intro exI [of _ "[Hs (HsRegister (discordMXID s u)), Hs (HsJoin (discordMXID s u) room)] @ hs"]) simp
    ultimately show ?thesis using None take by (simp add: j l)
  qed
qed

lemma LeaveCall_history:
  "\<exists>hs. snd (snd (LeaveCall env u (s, h))) = h @ hs \<and>
     (case gget (sgActive s) u of
        None \<Rightarrow> hs = []
      | Some i \<Rightarrow> Hs (HsSendState (miMxid i) (miRoomID i) callMemberEventType (miStateKey i) (JObj [])) \<in> set hs)"
proof (cases "gget (sgActive s) u")
  case None
  then show ?thesis by (simp add: LeaveCall_def)
next
  case (Some i)
  obtain hs where hs: "snd (sendStateRetry env (miMxid i) (miRoomID i) callMemberEventType (miStateKey i) (JObj []) h) = h @ hs"
      "hs \<noteq> []" "last hs = Hs (HsSendState (miMxid i) (miRoomID i) callMemberEventType (miStateKey i) (JObj []))"
    by (rule sendStateRetry_run)
  have "snd (snd (LeaveCall env u (s, h))) = h @ hs"
    using hs(1) Some by (auto simp: LeaveCall_def Let_def split: option.splits prod.splits)
  moreover have "last hs \<in> set hs" using hs(2) by simp
  ultimately show ?thesis using Some hs(3) by auto
qed

lemma fold_LeaveCall:
  "\<exists>hs. snd (fold (\<lambda>u sh. snd (LeaveCall env u sh)) us (s, h)) = h @ hs \<and>
     (\<forall>u \<in> set us. \<forall>i. gget (sgActive s) u = Some i \<longrightarrow>
        Hs (HsSendState (miMxid i) (miRoomID i) callMemberEventType (miStateKey i) (JObj [])) \<in> set hs) \<and>
     gget (sgActive (fst (fold (\<lambda>u sh. snd (LeaveCall env u sh)) us (s, h)))) =
       (\<lambda>u. if u \<in> set us then None else gget (sgActive s) u)"
proof (induction us arbitrary: s h)
  case Nil
  then show ?case by simp
next
  case (Cons u us)
  obtain r s1 h1 where l: "LeaveCall env u (s, h) = (r, s1, h1)" by (cases "LeaveCall env u (s, h)") auto
  have act: "gget (sgActive s1) v = (if v = u then None else gget (sgActive s) v)" for v
    using LeaveCall_active [of env u s h v] by (simp add: l)
  obtain hs1 where hs1: "h1 = h @ hs1" "case gget (sgActive s) u of None \<Rightarrow> hs1 = []
      | Some i \<Rightarrow> Hs (HsSendState (miMxid i) (miRoomID i) callMemberEventType (miStateKey i) (JObj [])) \<in> set hs1"
    using LeaveCall_history [of env u s h] by (auto simp: l)
  obtain hs2 where hs2: "snd (fold (\<lambda>u sh. snd (LeaveCall env u sh)) us (s1, h1)) = h1 @ hs2"
      "\<forall>v \<in> set us. \<forall>i. gget (sgActive s1) v = Some i \<longrightarrow>
        Hs (HsSendState (miMxid i) (miRoomID i) callMemberEventType (miStateKey i) (JObj [])) \<in> set hs2"
      "gget (sgActive (fst (fold (\<lambda>u sh. snd (LeaveCall env u sh)) us (s1, h1)))) =
        (\<lambda>v. if v \<in> set us then None else gget (sgActive s1) v)"
    using Cons.IH [of s1 h1] by blast
  show ?case
    using hs1 hs2 by (intro exI [of _ "hs1 @ hs2"]) (auto simp: l act split: if_splits option.splits; metis option.sel)
qed

text \<open>
  On shutdown every active membership is withdrawn by an empty state event in its room, and none
  remains recorded, whatever the homeserver answers and in whatever order the users are visited.
\<close>

theorem signaller_leave_all:
  "case LeaveAll env (s, h) of (s', h') \<Rightarrow>
     glen (sgActive s') = 0 \<and>
     (\<lambda>i. Hs (HsSendState (miMxid i) (miRoomID i) callMemberEventType (miStateKey i) (JObj [])))
        ` {i. \<exists>u. gget (sgActive s) u = Some i} \<subseteq> set h'"
proof -
  let ?us = "pick (rangeOrder env h) (gkeys (sgActive s))"
  obtain hs where hs: "snd (fold (\<lambda>u sh. snd (LeaveCall env u sh)) ?us (s, h)) = h @ hs"
      "\<forall>u \<in> set ?us. \<forall>i. gget (sgActive s) u = Some i \<longrightarrow>
        Hs (HsSendState (miMxid i) (miRoomID i) callMemberEventType (miStateKey i) (JObj [])) \<in> set hs"
      "gget (sgActive (fst (fold (\<lambda>u sh. snd (LeaveCall env u sh)) ?us (s, h)))) =
        (\<lambda>u. if u \<in> set ?us then None else gget (sgActive s) u)"
    using fold_LeaveCall [of env ?us s h] by blast
  obtain s' h' where f: "fold (\<lambda>u sh. snd (LeaveCall env u sh)) ?us (s, h) = (s', h')" by fastforce
  show ?thesis
    using hs by (auto simp: LeaveAll_def f Let_def)
qed

lemma uploadAndSetAvatar_http:
  "\<exists>hs. uploadAndSetAvatar env mxid url h = h @ [HttpGet url] @ hs \<and> hs \<in> lists (range Hs)"
  by (auto simp: uploadAndSetAvatar_def callStr_def callErr_def Let_def
      split: sum.split intro: exI [of _ "[]"])

lemma EnsureProfile_again:
  "ggetz False (sgProfileChecked (fst sh)) u \<Longrightarrow> EnsureProfile env u n a sh = sh"
  by (cases sh) (simp add: EnsureProfile_def)

text \<open>
  A puppet's profile is handled once: a second call for the same user changes nothing and calls
  nothing; and the only address ever fetched for it is the Discord CDN avatar of that user with a hash
  of 32 hexadecimal digits (after an optional \<open>a_\<close>).
\<close>

theorem signaller_profile_once:
  "EnsureProfile env' u n' a' (EnsureProfile env u n a (s, h)) = EnsureProfile env u n a (s, h) \<and>
   (\<exists>hs. snd (EnsureProfile env u n a (s, h)) = h @ hs \<and>
      set hs \<inter> range HttpGet \<subseteq> (if avatarHashOk a then {HttpGet (avatarURL u a)} else {}))"
proof
  let ?r = "EnsureProfile env u n a (s, h)"
  have "ggetz False (sgProfileChecked (fst ?r)) u"
    by (simp add: EnsureProfile_state)
  then show "EnsureProfile env' u n' a' ?r = ?r"
    by (rule EnsureProfile_again)
next
  obtain hs where up: "uploadAndSetAvatar env (discordMXID s u) (avatarURL u a)
      (h @ [Hs (HsRegister (discordMXID s u)), Hs (HsGetProfile (discordMXID s u) (discordMXID s u)),
            Hs (HsSetDisplayName (discordMXID s u) n)]) =
      (h @ [Hs (HsRegister (discordMXID s u)), Hs (HsGetProfile (discordMXID s u) (discordMXID s u)),
            Hs (HsSetDisplayName (discordMXID s u) n)]) @ [HttpGet (avatarURL u a)] @ hs" "hs \<in> lists (range Hs)"
    using uploadAndSetAvatar_http by blast
  obtain hs' where up': "uploadAndSetAvatar env (discordMXID s u) (avatarURL u a)
      (h @ [Hs (HsRegister (discordMXID s u)), Hs (HsGetProfile (discordMXID s u) (discordMXID s u))]) =
      (h @ [Hs (HsRegister (discordMXID s u)), Hs (HsGetProfile (discordMXID s u) (discordMXID s u))])
        @ [HttpGet (avatarURL u a)] @ hs'" "hs' \<in> lists (range Hs)"
    using uploadAndSetAvatar_http by blast
  have "range Hs \<inter> range HttpGet = {}" by auto
  then have "set hs \<inter> range HttpGet = {}" "set hs' \<inter> range HttpGet = {}"
    using up(2) up'(2) by (auto simp: lists_eq_set)
  then show "\<exists>hs. snd (EnsureProfile env u n a (s, h)) = h @ hs \<and>
      set hs \<inter> range HttpGet \<subseteq> (if avatarHashOk a then {HttpGet (avatarURL u a)} else {})"
    using up(1) up'(1)
    by (auto simp: EnsureProfile_def callErr_def callStr_def Let_def split: sum.split)
qed

lemma fold_renewOne:
  "\<exists>hs. fold (renewOne env s) is h = h @ hs \<and> length hs = length is \<and>
     list_all2 (\<lambda>i e. \<exists>t. e = Hs (HsSendState (miMxid i) (miRoomID i) callMemberEventType (miStateKey i)
        (memberContent s (miMxid i) (miDeviceID i) (miRoomID i) t))) is hs"
proof (induction "is" arbitrary: h)
  case Nil
  then show ?case by simp
next
  case (Cons i "is")
  let ?e = "Hs (HsSendState (miMxid i) (miRoomID i) callMemberEventType (miStateKey i)
        (memberContent s (miMxid i) (miDeviceID i) (miRoomID i) (nowMs env h)))"
  have one: "renewOne env s i h = h @ [?e]"
    by (simp add: renewOne_def callErr_def)
  obtain hs where "fold (renewOne env s) is (h @ [?e]) = (h @ [?e]) @ hs" "length hs = length is"
     "list_all2 (\<lambda>i e. \<exists>t. e = Hs (HsSendState (miMxid i) (miRoomID i) callMemberEventType (miStateKey i)
        (memberContent s (miMxid i) (miDeviceID i) (miRoomID i) t))) is hs"
    using Cons.IH [of "h @ [?e]"] by blast
  then show ?case by (intro exI [of _ "?e # hs"]) (auto simp: one)
qed

lemma length_map_filter_total:
  "\<forall>x \<in> set xs. f x \<noteq> None \<Longrightarrow> length (List.map_filter f xs) = length xs"
  by (induction xs) (auto simp: List.map_filter_def)

lemma length_activeMembers: "length (activeMembers env s h) = glen (sgActive s)"
  by (simp add: activeMembers_def length_map_filter_total glen_def)

lemma set_activeMembers: "set (activeMembers env s h) = {i. \<exists>u. gget (sgActive s) u = Some i}"
  by (force simp: activeMembers_def List.map_filter_def image_iff)

text \<open>
  A renewal tick sends exactly one fresh membership per active user, each under the user's own
  id, room and state key; a membership outlives the renewal period by an hour.
\<close>

theorem signaller_renews_all:
  "\<exists>hs. renewTick env s h = h @ hs \<and> length hs = glen (sgActive s) \<and>
     (\<forall>u. case gget (sgActive s) u of
        None \<Rightarrow> True
      | Some i \<Rightarrow> \<exists>t. Hs (HsSendState (miMxid i) (miRoomID i) callMemberEventType (miStateKey i)
          (memberContent s (miMxid i) (miDeviceID i) (miRoomID i) t)) \<in> set hs) \<and>
     membershipExpiryMs - renewalPeriodMs = 60 * 60 * 1000"
proof -
  let ?is = "activeMembers env s h"
  let ?p = "\<lambda>i e. \<exists>t. e = Hs (HsSendState (miMxid i) (miRoomID i) callMemberEventType (miStateKey i)
        (memberContent s (miMxid i) (miDeviceID i) (miRoomID i) t))"
  obtain hs where hs: "fold (renewOne env s) ?is h = h @ hs" "length hs = length ?is" "list_all2 ?p ?is hs"
    using fold_renewOne by blast
  have "\<exists>t. Hs (HsSendState (miMxid i) (miRoomID i) callMemberEventType (miStateKey i)
          (memberContent s (miMxid i) (miDeviceID i) (miRoomID i) t)) \<in> set hs"
    if "gget (sgActive s) u = Some i" for u i
  proof -
    have "i \<in> set ?is" using that by (auto simp: set_activeMembers)
    then obtain n where "n < length ?is" "?is ! n = i" by (auto simp: in_set_conv_nth)
    with hs(3) have "?p i (hs ! n)" "n < length hs" by (auto simp: list_all2_conv_all_nth)
    then show ?thesis by (metis nth_mem)
  qed
  with hs show ?thesis
    by (auto simp: renewTick_def length_activeMembers membershipExpiryMs_def renewalPeriodMs_def
        split: option.split)
qed

text \<open>
  The sync loop understands what the bridge writes: a membership counts as a join until its
  expiry and is ignored after it, the empty content of a withdrawal counts as a leave, and nothing is
  delivered before the initial sync is done.
\<close>

theorem signaller_membership_understood:
  "callMemberEvent t' True room sender (Some k) (Some (memberContent s mxid dev r t)) =
     (if t' \<le> t + 4 * 60 * 60 * 1000 then Some (room, sender, True) else None) \<and>
   callMemberEvent t' True room sender (Some k) (Some (JObj [])) = Some (room, sender, False) \<and>
   callMemberEvent t' False room sender sk raw = None"
  by (simp add: callMemberEvent_def memberContent_def jField_def membershipExpiryMs_def truncRat_def
      callApplication_def not_less del: of_int_add)

lemma syncWaits_bounds: "500 \<le> b \<Longrightarrow> b \<le> 8000 \<Longrightarrow> set (syncWaits b os) \<subseteq> {500..8000}"
  by (induction b os rule: syncWaits.induct) auto

lemma syncWaits_errors:
  "syncWaits (min (500 * 2 ^ k) 8000) (replicate n SyncErr) = map (\<lambda>i. min (500 * 2 ^ i) 8000) [k..<k + n]"
proof (induction n arbitrary: k)
  case (Suc n)
  have "min (min (500 * 2 ^ k) 8000 * 2) 8000 = min (500 * 2 ^ Suc k) (8000 :: nat)" by simp
  moreover have "[k..<k + Suc n] = k # [Suc k..<Suc k + n]" by (simp add: upt_conv_Cons del: upt_Suc)
  ultimately show ?case using Suc.IH [of "Suc k"] by (simp del: power_Suc upt_Suc)
qed simp

text \<open>
  Reconnecting to \<^verbatim>\<open>/sync\<close> waits between half a second and eight seconds, doubling with each
  failure in a row; a successful run starts over at half a second, and a done context ends the loop.
\<close>

theorem signaller_sync_backoff:
  "set (syncWaits 500 outcomes) \<subseteq> {500..8000} \<and>
   syncWaits 500 (replicate n SyncErr) = map (\<lambda>i. min (500 * 2 ^ i) 8000) [0..<n] \<and>
   syncWaits 500 (replicate n SyncErr @ SyncOk # outcomes) =
     syncWaits 500 (replicate n SyncErr) @ syncWaits 500 outcomes \<and>
   syncWaits b (SyncCtxDone # outcomes) = []"
proof -
  have "syncWaits b (replicate n SyncErr @ SyncOk # outcomes) =
      syncWaits b (replicate n SyncErr) @ syncWaits 500 outcomes" for b
    by (induction n arbitrary: b) simp_all
  moreover have "set (syncWaits 500 outcomes) \<subseteq> {500..8000}"
    by (rule syncWaits_bounds) simp_all
  ultimately show ?thesis
    using syncWaits_errors [of 0 n] by simp
qed

end
