(* ===== verification/LkManager.thy ===== *)
theory LkManager
  imports World
begin

text \<open>
  \<^verbatim>\<open>pkg/livekit/manager.go\<close>: one LiveKit participant per bridged Discord user. The participant is
  created by a goroutine while the frames go on arriving; the goroutine is modelled as a program
  counter (\<open>lkProc\<close>) whose steps are the lock sections and the SDK calls of \<^verbatim>\<open>ensureParticipant\<close>, so
  that frames, removals, disconnects and \<^verbatim>\<open>Close\<close> can happen between any two of them.
\<close>

section \<open>State\<close>

record lkConfig =
  lkURL :: string
  lkAPIKey :: string
  lkAPISecret :: string
  lkRoomName :: string

record participant =
  ptRoom :: nat
  ptTrack :: nat

record lkManager =
  lkConfigOf :: lkConfig
  lkIdentityFunc :: "(u64 \<Rightarrow> string) option"
  lkParticipants :: "(u64, participant) gomap"
  lkConnecting :: "(u64, bool) gomap"

definition NewLkManager :: "lkConfig \<Rightarrow> lkManager" where
  "NewLkManager config = \<lparr>lkConfigOf = config, lkIdentityFunc = None, lkParticipants = [], lkConnecting = []\<rparr>"

definition SetIdentityFunc :: "(u64 \<Rightarrow> string) \<Rightarrow> lkManager \<Rightarrow> lkManager" where
  "SetIdentityFunc fn m = m\<lparr>lkIdentityFunc := Some fn\<rparr>"

definition lkIdentity :: "lkManager \<Rightarrow> u64 \<Rightarrow> string" where
  "lkIdentity m uid =
     (case lkIdentityFunc m of Some fn \<Rightarrow> fn uid | None \<Rightarrow> ''discord:'' @ formatUint uid)"

section \<open>Lock sections\<close>

definition ensureClaim :: "u64 \<Rightarrow> lkManager \<Rightarrow> bool \<times> lkManager" where
  "ensureClaim uid m =
     (if gget (lkParticipants m) uid \<noteq> None then (False, m)
      else if ggetz False (lkConnecting m) uid then (False, m)
      else (True, m\<lparr>lkConnecting := gput uid True (lkConnecting m)\<rparr>))"

definition ensureInstall :: "u64 \<Rightarrow> participant \<Rightarrow> lkManager \<Rightarrow> lkManager" where
  "ensureInstall uid p m = m\<lparr>lkParticipants := gput uid p (lkParticipants m),
     lkConnecting := gdel uid (lkConnecting m)\<rparr>"

definition clearConnecting :: "u64 \<Rightarrow> lkManager \<Rightarrow> lkManager" where
  "clearConnecting uid m = m\<lparr>lkConnecting := gdel uid (lkConnecting m)\<rparr>"

text \<open>\<^verbatim>\<open>OnDisconnected\<close>; \<open>roomRef\<close> is nil until the connect call has returned.\<close>

definition onDisconnected :: "u64 \<Rightarrow> nat option \<Rightarrow> lkManager \<Rightarrow> lkManager" where
  "onDisconnected uid roomRef m =
     (case gget (lkParticipants m) uid of
        Some p \<Rightarrow> if Some (ptRoom p) = roomRef
                  then m\<lparr>lkParticipants := gdel uid (lkParticipants m)\<rparr> else m
      | None \<Rightarrow> m)"

definition removeTake :: "u64 \<Rightarrow> lkManager \<Rightarrow> participant option \<times> lkManager" where
  "removeTake uid m =
     (case gget (lkParticipants m) uid of
        Some p \<Rightarrow> (Some p, m\<lparr>lkParticipants := gdel uid (lkParticipants m)\<rparr>)
      | None \<Rightarrow> (None, m))"

definition closeTake :: "env \<Rightarrow> history \<Rightarrow> lkManager \<Rightarrow> participant list \<times> lkManager" where
  "closeTake env h m =
     (List.map_filter (gget (lkParticipants m)) (pick (rangeOrder env h) (gkeys (lkParticipants m))),
      m\<lparr>lkParticipants := []\<rparr>)"

section \<open>Goroutines\<close>

text \<open>
  Where a goroutine stands: about to check and claim, create the track, connect, publish, install
  the participant, or clear the claim after an error; and a caller about to disconnect a room it has
  taken out of the map.
\<close>

datatype lkProc =
    EnsureStart u64
  | EnsureTrack u64
  | EnsureConnect u64 nat
  | EnsurePublish u64 nat nat
  | EnsureInstall u64 nat nat
  | EnsureClear u64 goerror
  | RoomDisconnect nat

text \<open>
  The manager with its goroutines and the rooms the SDK holds open, each with the user it was opened for.
\<close>

record lkRun =
  lrMgr :: lkManager
  lrProcs :: "lkProc list"
  lrRooms :: "(nat, u64) gomap"

definition newRun :: "lkManager \<Rightarrow> lkRun" where
  "newRun m = \<lparr>lrMgr = m, lrProcs = [], lrRooms = []\<rparr>"

fun procStep :: "env \<Rightarrow> lkProc \<Rightarrow> lkRun \<times> history \<Rightarrow> lkProc option \<times> lkRun \<times> history" where
  "procStep env (EnsureStart uid) (lr, h) =
     (let (go, m1) = ensureClaim uid (lrMgr lr)
      in if go then (Some (EnsureTrack uid), lr\<lparr>lrMgr := m1\<rparr>, h) else (None, lr, h))"
| "procStep env (EnsureTrack uid) (lr, h) =
     (case callErr env (Lk LkNewTrack) h of
        (Some e, h1) \<Rightarrow> (Some (EnsureClear uid (wrapErr ''create track'' e)), lr, h1)
      | (None, h1) \<Rightarrow> (Some (EnsureConnect uid (length h)), lr, h1))"
| "procStep env (EnsureConnect uid track) (lr, h) =
     (let m = lrMgr lr in
      case callErr env (Lk (LkConnect (lkURL (lkConfigOf m)) (lkRoomName (lkConfigOf m)) (lkIdentity m uid))) h of
        (Some e, h1) \<Rightarrow> (Some (EnsureClear uid (wrapErr ''connect to room'' e)), lr, h1 @ [Lk (LkCloseTrack track)])
      | (None, h1) \<Rightarrow>
          (Some (EnsurePublish uid track (length h)), lr\<lparr>lrRooms := gput (length h) uid (lrRooms lr)\<rparr>, h1))"
| "procStep env (EnsurePublish uid track room) (lr, h) =
     (case callErr env (Lk (LkPublish room track)) h of
        (Some e, h1) \<Rightarrow>
          (Some (EnsureClear uid (wrapErr ''publish track'' e)), lr\<lparr>lrRooms := gdel room (lrRooms lr)\<rparr>,
           h1 @ [Lk (LkDisconnect room), Lk (LkCloseTrack track)])
      | (None, h1) \<Rightarrow> (Some (EnsureInstall uid track room), lr, h1))"
| "procStep env (EnsureInstall uid track room) (lr, h) =
     (None, lr\<lparr>lrMgr := ensureInstall uid \<lparr>ptRoom = room, ptTrack = track\<rparr> (lrMgr lr)\<rparr>, h)"
| "procStep env (EnsureClear uid err) (lr, h) =
     (None, lr\<lparr>lrMgr := clearConnecting uid (lrMgr lr)\<rparr>, h)"
| "procStep env (RoomDisconnect room) (lr, h) =
     (None, lr\<lparr>lrRooms := gdel room (lrRooms lr)\<rparr>, h @ [Lk (LkDisconnect room)])"

text \<open>A goroutine run to its end without interruption.\<close>

fun procRank :: "lkProc \<Rightarrow> nat" where
  "procRank (EnsureStart _) = 5"
| "procRank (EnsureTrack _) = 4"
| "procRank (EnsureConnect _ _) = 3"
| "procRank (EnsurePublish _ _ _) = 2"
| "procRank (EnsureInstall _ _ _) = 1"
| "procRank (EnsureClear _ _) = 1"
| "procRank (RoomDisconnect _) = 1"

lemma procStep_rank: "procStep env pc s = (Some pc', s') \<Longrightarrow> procRank pc' < procRank pc"
  by (cases s; cases pc) (auto simp: callErr_def Let_def split: option.splits prod.splits if_splits)

function runProc :: "env \<Rightarrow> lkProc \<Rightarrow> lkRun \<times> history \<Rightarrow> lkRun \<times> history" where
  "runProc env pc s =
     (case procStep env pc s of
        (None, s1) \<Rightarrow> s1
      | (Some pc1, s1) \<Rightarrow> runProc env pc1 s1)"
  by pat_completeness auto
termination
  by (relation "measure (\<lambda>(env, pc, s). procRank pc)") (auto dest!: procStep_rank [OF sym])

declare runProc.simps [simp del]

definition ensureParticipant :: "env \<Rightarrow> u64 \<Rightarrow> lkRun \<times> history \<Rightarrow> lkRun \<times> history" where
  "ensureParticipant env uid s = runProc env (EnsureStart uid) s"

section \<open>Operations\<close>

definition WriteOpus :: "env \<Rightarrow> u64 \<Rightarrow> bytes \<Rightarrow> lkRun \<times> history \<Rightarrow> goerror option \<times> lkRun \<times> history" where
  "WriteOpus env uid opusFrame s =
     (let (lr, h) = s; m = lrMgr lr in
      case gget (lkParticipants m) uid of
        None \<Rightarrow>
          if ggetz False (lkConnecting m) uid then (None, lr, h)
          else (None, lr\<lparr>lrProcs := lrProcs lr @ [EnsureStart uid]\<rparr>, h)
      | Some p \<Rightarrow>
          let (err, h1) = callErr env (Lk (LkWriteSample (ptTrack p) opusFrame)) h in (err, lr, h1))"

definition RemoveParticipant :: "u64 \<Rightarrow> lkRun \<times> history \<Rightarrow> lkRun \<times> history" where
  "RemoveParticipant uid s =
     (let (lr, h) = s in
      case removeTake uid (lrMgr lr) of
        (Some p, m1) \<Rightarrow> (lr\<lparr>lrMgr := m1, lrRooms := gdel (ptRoom p) (lrRooms lr)\<rparr>, h @ [Lk (LkDisconnect (ptRoom p))])
      | (None, m1) \<Rightarrow> (lr\<lparr>lrMgr := m1\<rparr>, h))"

definition CloseLk :: "env \<Rightarrow> lkRun \<times> history \<Rightarrow> lkRun \<times> history" where
  "CloseLk env s =
     (let (lr, h) = s; (ps, m1) = closeTake env h (lrMgr lr)
      in fold (\<lambda>p (lr, h). (lr\<lparr>lrRooms := gdel (ptRoom p) (lrRooms lr)\<rparr>, h @ [Lk (LkDisconnect (ptRoom p))]))
           ps (lr\<lparr>lrMgr := m1\<rparr>, h))"

section \<open>The interleaving\<close>

text \<open>
  What may happen next: a frame arrives, the goroutine at some position makes a step, a user is
  removed or the manager closed (their disconnect calls become pending), or the SDK loses a room.
\<close>

datatype lkEvent =
    FrameEv u64 bytes
  | RunEv nat
  | RemoveEv u64
  | CloseEv
  | LostEv nat

fun lkStep :: "env \<Rightarrow> lkEvent \<Rightarrow> lkRun \<times> history \<Rightarrow> lkRun \<times> history" where
  "lkStep env (FrameEv uid f) s = snd (WriteOpus env uid f s)"
| "lkStep env (RunEv i) (lr, h) =
     (if i < length (lrProcs lr)
      then (case procStep env (lrProcs lr ! i) (lr, h) of (next, lr1, h1) \<Rightarrow>
              (lr1\<lparr>lrProcs := take i (lrProcs lr) @ (case next of None \<Rightarrow> [] | Some pc \<Rightarrow> [pc])
                   @ drop (Suc i) (lrProcs lr)\<rparr>, h1))
      else (lr, h))"
| "lkStep env (RemoveEv uid) (lr, h) =
     (case removeTake uid (lrMgr lr) of
        (Some p, m1) \<Rightarrow> (lr\<lparr>lrMgr := m1, lrProcs := lrProcs lr @ [RoomDisconnect (ptRoom p)]\<rparr>, h)
      | (None, m1) \<Rightarrow> (lr, h))"
| "lkStep env CloseEv (lr, h) =
     (case closeTake env h (lrMgr lr) of
        (ps, m1) \<Rightarrow> (lr\<lparr>lrMgr := m1, lrProcs := lrProcs lr @ map (RoomDisconnect \<circ> ptRoom) ps\<rparr>, h))"
| "lkStep env (LostEv room) (lr, h) =
     (case gget (lrRooms lr) room of
        None \<Rightarrow> (lr, h)
      | Some uid \<Rightarrow> (lr\<lparr>lrMgr := onDisconnected uid (Some room) (lrMgr lr), lrRooms := gdel room (lrRooms lr)\<rparr>, h))"

section \<open>Who owns a room\<close>

text \<open>The user a goroutine holds the claim of, and the user whose room it holds.\<close>

fun busyFor :: "lkProc \<Rightarrow> u64 option" where
  "busyFor (EnsureStart _) = None"
| "busyFor (EnsureTrack u) = Some u"
| "busyFor (EnsureConnect u _) = Some u"
| "busyFor (EnsurePublish u _ _) = Some u"
| "busyFor (EnsureInstall u _ _) = Some u"
| "busyFor (EnsureClear u _) = Some u"
| "busyFor (RoomDisconnect _) = None"

fun holdsRoom :: "lkProc \<Rightarrow> (u64 \<times> nat) option" where
  "holdsRoom (EnsurePublish u _ r) = Some (u, r)"
| "holdsRoom (EnsureInstall u _ r) = Some (u, r)"
| "holdsRoom _ = None"

definition claims :: "u64 \<Rightarrow> lkProc list \<Rightarrow> nat" where
  "claims u pcs = length (filter (\<lambda>pc. busyFor pc = Some u) pcs)"

lemma claims_simps [simp]:
  "claims u [] = 0"
  "claims u (pc # pcs) = (if busyFor pc = Some u then Suc (claims u pcs) else claims u pcs)"
  "claims u (xs @ ys) = claims u xs + claims u ys"
  by (simp_all add: claims_def)

lemma claims_disconnects [simp]: "claims u (map (RoomDisconnect \<circ> ptRoom) ps) = 0"
  by (simp add: claims_def filter_empty_conv)

definition owned :: "lkManager \<Rightarrow> lkProc list \<Rightarrow> u64 \<Rightarrow> nat \<Rightarrow> bool" where
  "owned m pcs u r \<longleftrightarrow>
     map_option ptRoom (gget (lkParticipants m) u) = Some r \<or>
     (\<exists>pc \<in> set pcs. holdsRoom pc = Some (u, r)) \<or> RoomDisconnect r \<in> set pcs"

text \<open>
  The invariant: a user's connecting flag stands for exactly one goroutine at work for the user, no
  participant exists meanwhile, and every open room is a participant's, a goroutine's, or about to
  be disconnected.
\<close>

definition lkInv :: "lkRun \<Rightarrow> bool" where
  "lkInv lr \<longleftrightarrow>
     (\<forall>u. claims u (lrProcs lr) = of_bool (ggetz False (lkConnecting (lrMgr lr)) u)) \<and>
     (\<forall>u. ggetz False (lkConnecting (lrMgr lr)) u \<longrightarrow> gget (lkParticipants (lrMgr lr)) u = None) \<and>
     (\<forall>r u. gget (lrRooms lr) r = Some u \<longrightarrow> owned (lrMgr lr) (lrProcs lr) u r)"

lemma lkInv_init: "lkInv (newRun (NewLkManager c))"
  by (simp add: lkInv_def newRun_def NewLkManager_def)

lemma lkInv_identity: "lkInv (newRun (SetIdentityFunc f (NewLkManager c)))"
  by (simp add: lkInv_def newRun_def SetIdentityFunc_def NewLkManager_def)

lemma holdsRoom_busy: "holdsRoom pc = Some (u, r) \<Longrightarrow> busyFor pc = Some u"
  by (cases pc) auto

lemma claims_member: "pc \<in> set pcs \<Longrightarrow> busyFor pc = Some u \<Longrightarrow> 0 < claims u pcs"
  by (auto simp: claims_def filter_empty_conv)

lemma owned_mono:
  "owned m pcs u r \<Longrightarrow> set pcs \<subseteq> set pcs' \<Longrightarrow> lkParticipants m = lkParticipants m' \<Longrightarrow> owned m' pcs' u r"
  by (auto simp: owned_def)

lemma lkInv_frame:
  assumes "lkInv lr"
  shows "lkInv (fst (snd (WriteOpus env u f (lr, h))))"
  using assms
  by (auto simp: WriteOpus_def Let_def lkInv_def callErr_def owned_def split: option.splits)

lemma lkInv_remove:
  assumes "lkInv lr"
  shows "lkInv (fst (lkStep env (RemoveEv u) (lr, h)))"
  using assms
  by (auto simp: removeTake_def lkInv_def owned_def split: option.splits; metis option.inject)

lemma lkInv_close:
  assumes "lkInv lr"
  shows "lkInv (fst (lkStep env CloseEv (lr, h)))"
proof -
  let ?ps = "fst (closeTake env h (lrMgr lr))"
  have taken: "RoomDisconnect (ptRoom p) \<in> (RoomDisconnect \<circ> ptRoom) ` set ?ps"
    if "gget (lkParticipants (lrMgr lr)) u = Some p" for u p
    using that by (force simp: closeTake_def List.map_filter_def image_iff)
  have "owned m (lrProcs lr @ map (RoomDisconnect \<circ> ptRoom) ?ps) u r" if "gget (lrRooms lr) r = Some u" for m u r
  proof -
    have "owned (lrMgr lr) (lrProcs lr) u r" using assms that by (simp add: lkInv_def)
    then show ?thesis using taken [of u] by (auto simp: owned_def)
  qed
  moreover have "fst (lkStep env CloseEv (lr, h)) = lr\<lparr>lrMgr := (lrMgr lr)\<lparr>lkParticipants := []\<rparr>,
      lrProcs := lrProcs lr @ map (RoomDisconnect \<circ> ptRoom) ?ps\<rparr>"
    by (simp add: closeTake_def)
  ultimately show ?thesis
    using assms by (simp add: lkInv_def)
qed

lemma lkInv_lost:
  assumes "lkInv lr"
  shows "lkInv (fst (lkStep env (LostEv r) (lr, h)))"
  using assms
  by (auto simp: onDisconnected_def lkInv_def owned_def split: option.splits; metis option.inject)

lemma claims_others:
  assumes "lkInv lr" and "lrProcs lr = xs @ pc # ys" and "busyFor pc = Some u"
  shows "ggetz False (lkConnecting (lrMgr lr)) u" and "claims u xs = 0" and "claims u ys = 0"
    and "gget (lkParticipants (lrMgr lr)) u = None"
proof -
  have "claims u (lrProcs lr) = of_bool (ggetz False (lkConnecting (lrMgr lr)) u)"
    using assms(1) by (simp add: lkInv_def)
  then show *: "ggetz False (lkConnecting (lrMgr lr)) u" "claims u xs = 0" "claims u ys = 0"
    using assms(2,3) by (cases "ggetz False (lkConnecting (lrMgr lr)) u"; simp)+
  then show "gget (lkParticipants (lrMgr lr)) u = None"
    using assms(1) by (simp add: lkInv_def)
qed

lemma lkInv_proc:
  assumes inv: "lkInv lr" and pcs: "lrProcs lr = xs @ pc # ys"
    and step: "procStep env pc (lr, h) = (next, lr1, h1)"
  shows "lkInv (lr1\<lparr>lrProcs := xs @ (case next of None \<Rightarrow> [] | Some pc1 \<Rightarrow> [pc1]) @ ys\<rparr>)"
proof -
  note cl = claims_others [OF inv pcs]
  let ?rest = "case next of None \<Rightarrow> [] | Some pc1 \<Rightarrow> [pc1]"
  have count: "claims v (xs @ ?rest @ ys) = of_bool (ggetz False (lkConnecting (lrMgr lr1)) v)" for v
  proof -
    have "claims v (xs @ pc # ys) = of_bool (ggetz False (lkConnecting (lrMgr lr)) v)"
      using inv by (simp add: lkInv_def pcs)
    then show ?thesis using step cl [of v]
      by (cases pc) (auto simp: ensureClaim_def ensureInstall_def clearConnecting_def callErr_def Let_def
          split: option.splits if_splits)
  qed
  moreover have "gget (lkParticipants (lrMgr lr1)) v = None" if "ggetz False (lkConnecting (lrMgr lr1)) v" for v
  proof -
    have "ggetz False (lkConnecting (lrMgr lr)) v \<Longrightarrow> gget (lkParticipants (lrMgr lr)) v = None"
      using inv by (simp add: lkInv_def)
    then show ?thesis using step that
      by (cases pc) (auto simp: ensureClaim_def ensureInstall_def clearConnecting_def callErr_def Let_def
          split: option.splits if_splits)
  qed
  moreover have "owned (lrMgr lr1) (xs @ ?rest @ ys) v r" if "gget (lrRooms lr1) r = Some v" for r v
  proof -
    have "gget (lrRooms lr) r = Some v \<Longrightarrow> owned (lrMgr lr) (xs @ pc # ys) v r"
      using inv by (simp add: lkInv_def pcs)
    then show ?thesis using step that cl(4) [of v]
      by (cases pc) (auto simp: owned_def ensureClaim_def ensureInstall_def clearConnecting_def callErr_def Let_def
          split: option.splits if_splits)
  qed
  ultimately show ?thesis by (simp add: lkInv_def)
qed

lemma procStep_procs: "procStep env pc (lr, h) = (next, lr1, h1) \<Longrightarrow> lrProcs lr1 = lrProcs lr"
  by (cases pc) (auto simp: callErr_def Let_def split: option.splits prod.splits if_splits)

lemma lkInv_run:
  assumes "lkInv lr"
  shows "lkInv (fst (lkStep env (RunEv i) (lr, h)))"
proof (cases "i < length (lrProcs lr)")
  case True
  obtain next' lr1 h1 where s: "procStep env (lrProcs lr ! i) (lr, h) = (next', lr1, h1)"
    by (cases "procStep env (lrProcs lr ! i) (lr, h)") auto
  have "lrProcs lr = take i (lrProcs lr) @ lrProcs lr ! i # drop (Suc i) (lrProcs lr)"
    using True by (rule id_take_nth_drop)
  from lkInv_proc [OF assms this s] True s show ?thesis by simp
qed (use assms in simp)

lemma lkStep_inv: "lkInv (fst s) \<Longrightarrow> lkInv (fst (lkStep env e s))"
proof (cases s)
  case (Pair lr h)
  assume "lkInv (fst s)"
  then have "lkInv lr" by (simp add: Pair)
  then show ?thesis
  proof (cases e)
    case (FrameEv u f) then show ?thesis using lkInv_frame [OF \<open>lkInv lr\<close>] by (simp add: Pair)
  next
    case (RunEv i) then show ?thesis using lkInv_run [OF \<open>lkInv lr\<close>] unfolding Pair by blast
  next
    case (RemoveEv u) then show ?thesis using lkInv_remove [OF \<open>lkInv lr\<close>] unfolding Pair by blast
  next
    case CloseEv then show ?thesis using lkInv_close [OF \<open>lkInv lr\<close>] unfolding Pair by blast
  next
    case (LostEv r) then show ?thesis using lkInv_lost [OF \<open>lkInv lr\<close>] unfolding Pair by blast
  qed
qed

interpretation lk_machine: event_machine "lkStep env" "\<lambda>s. lkInv (fst s)" for env
  by unfold_locales (rule lkStep_inv)

section \<open>Properties\<close>

lemma claims_le_one: "lkInv lr \<Longrightarrow> claims u (lrProcs lr) \<le> 1"
  by (simp add: lkInv_def)

lemma holds_unique:
  assumes "claims u pcs \<le> 1" and "pc \<in> set pcs" and "pc' \<in> set pcs"
    and "holdsRoom pc = Some (u, r)" and "holdsRoom pc' = Some (u, r')"
  shows "r = r'"
proof -
  let ?xs = "filter (\<lambda>pc. busyFor pc = Some u) pcs"
  have "pc \<in> set ?xs" "pc' \<in> set ?xs" using assms by (auto dest: holdsRoom_busy)
  moreover obtain x where "set ?xs \<subseteq> {x}"
    using assms(1) unfolding claims_def by (cases ?xs) (auto simp: le_Suc_eq)
  ultimately have "pc = pc'" by blast
  with assms(4,5) show ?thesis by simp
qed

lemma lkInv_one_room:
  assumes inv: "lkInv lr"
    and r: "gget (lrRooms lr) r = Some u" "RoomDisconnect r \<notin> set (lrProcs lr)"
    and r': "gget (lrRooms lr) r' = Some u" "RoomDisconnect r' \<notin> set (lrProcs lr)"
  shows "r = r'"
proof -
  have o: "owned (lrMgr lr) (lrProcs lr) u r" "owned (lrMgr lr) (lrProcs lr) u r'"
    using inv r(1) r'(1) by (simp_all add: lkInv_def)
  have busy: "gget (lkParticipants (lrMgr lr)) u = None"
    if "pc \<in> set (lrProcs lr)" "holdsRoom pc = Some (u, q)" for pc q
  proof -
    have "0 < claims u (lrProcs lr)" using that by (metis claims_member holdsRoom_busy)
    then show ?thesis using inv by (auto simp: lkInv_def split: if_splits)
  qed
  show ?thesis
    using o r(2) r'(2) busy holds_unique [OF claims_le_one [OF inv]]
    by (auto simp: owned_def; metis busy option.distinct(1))
qed

text \<open>
  C30: Whatever the order of frames, goroutine steps, removals, closes, SDK failures and disconnects, at
  most one goroutine is at work on a connection for a user, and the SDK holds at most one room open for
  a user besides those whose disconnect call is already under way.
\<close>

theorem lk_one_connection:
  "case fold (lkStep env) es (newRun (NewLkManager c), h) of (lr, h') \<Rightarrow>
     claims u (lrProcs lr) \<le> 1 \<and>
     (\<exists>r. {q. gget (lrRooms lr) q = Some u \<and> RoomDisconnect q \<notin> set (lrProcs lr)} \<subseteq> {r})"
proof -
  obtain lr h' where f: "fold (lkStep env) es (newRun (NewLkManager c), h) = (lr, h')"
    by (cases "fold (lkStep env) es (newRun (NewLkManager c), h)") auto
  have "lkInv (fst (fold (lkStep env) es (newRun (NewLkManager c), h)))"
    by (rule lk_machine.run_inv) (simp add: lkInv_init)
  then have inv: "lkInv lr" by (simp add: f)
  let ?R = "{q. gget (lrRooms lr) q = Some u \<and> RoomDisconnect q \<notin> set (lrProcs lr)}"
  have "?R \<subseteq> {r}" if "r \<in> ?R" for r
    using that lkInv_one_room [OF inv] by blast
  then have "\<exists>r. ?R \<subseteq> {r}" by blast
  then show ?thesis using claims_le_one [OF inv] by (simp add: f)
qed

lemma runProc_Some: "procStep env pc s = (Some pc1, s1) \<Longrightarrow> runProc env pc s = runProc env pc1 s1"
  by (simp add: runProc.simps [of env pc s])

lemma runProc_None: "procStep env pc s = (None, s1) \<Longrightarrow> runProc env pc s = s1"
  by (simp add: runProc.simps [of env pc s])

lemmas runProc_steps = runProc.simps [of env "EnsureStart u" for env u]
  runProc.simps [of env "EnsureTrack u" for env u] runProc.simps [of env "EnsureConnect u t" for env u t]
  runProc.simps [of env "EnsurePublish u t r" for env u t r]
  runProc.simps [of env "EnsureInstall u t r" for env u t r]
  runProc.simps [of env "EnsureClear u e" for env u e]

text \<open>
  \<^verbatim>\<open>ensureParticipant\<close> run alone does nothing when the user has a participant or a connection under
  way; otherwise it either ends with the new participant in the map and its room open, or, at whichever
  of the three SDK calls it failed, with every track closed, every room disconnected and the map as before.
\<close>

theorem lk_ensure_participant:
  "ensureParticipant env u (lr, h) =
     (let m = lrMgr lr; h1 = h @ [Lk LkNewTrack];
          conn = Lk (LkConnect (lkURL (lkConfigOf m)) (lkRoomName (lkConfigOf m)) (lkIdentity m u));
          h2 = h1 @ [conn]; t = length h; r = length h + 1; h3 = h2 @ [Lk (LkPublish r t)];
          back = lr\<lparr>lrMgr := m\<lparr>lkConnecting := gdel u (gput u True (lkConnecting m))\<rparr>\<rparr>
      in if (gget (lkParticipants m) u, ggetz False (lkConnecting m) u) \<noteq> (None, False) then (lr, h)
         else if askErr env h (Lk LkNewTrack) \<noteq> None then (back, h1)
         else if askErr env h1 conn \<noteq> None then (back, h2 @ [Lk (LkCloseTrack t)])
         else if askErr env h2 (Lk (LkPublish r t)) \<noteq> None
         then (back\<lparr>lrRooms := gdel r (gput r u (lrRooms lr))\<rparr>,
               h3 @ [Lk (LkDisconnect r), Lk (LkCloseTrack t)])
         else (back\<lparr>lrMgr := (lrMgr back)\<lparr>lkParticipants := gput u \<lparr>ptRoom = r, ptTrack = t\<rparr> (lkParticipants m)\<rparr>,
                    lrRooms := gput r u (lrRooms lr)\<rparr>, h3))"
  by (auto simp: ensureParticipant_def runProc_steps ensureClaim_def callErr_def clearConnecting_def
      ensureInstall_def lkIdentity_def Let_def split: option.split)

text \<open>
  Writing a frame never waits for a connection: it sends the frame on the user's own track and only
  there, or drops it; a goroutine is started only for a user with neither participant nor claim, and a
  removal disconnects exactly the user's room.
\<close>

theorem lk_write_drops:
  "case WriteOpus env u f (lr, h) of (err, lr', h') \<Rightarrow>
     lrMgr lr' = lrMgr lr \<and> lrRooms lr' = lrRooms lr \<and>
     (case gget (lkParticipants (lrMgr lr)) u of
        Some p \<Rightarrow> h' = h @ [Lk (LkWriteSample (ptTrack p) f)] \<and> lrProcs lr' = lrProcs lr
      | None \<Rightarrow> err = None \<and> h' = h \<and>
          lrProcs lr' = lrProcs lr @ (if ggetz False (lkConnecting (lrMgr lr)) u then [] else [EnsureStart u])) \<and>
     (case RemoveParticipant u (lr, h) of (lr2, h2) \<Rightarrow>
        gget (lkParticipants (lrMgr lr2)) = (gget (lkParticipants (lrMgr lr)))(u := None) \<and>
        h2 = h @ (case gget (lkParticipants (lrMgr lr)) u of
                    None \<Rightarrow> [] | Some p \<Rightarrow> [Lk (LkDisconnect (ptRoom p))]))"
  by (auto simp: WriteOpus_def RemoveParticipant_def removeTake_def callErr_def Let_def fun_eq_iff
      split: option.split)

text \<open>
  Closing the manager while a connection is under way leaks it: the goroutine installs its
  participant after \<^verbatim>\<open>Close\<close> has emptied the map, no goroutine is left, and the room stays open.
\<close>

theorem lk_close_leaks:
  "case fold (lkStep calmEnv)
      [FrameEv 7 [], RunEv 0, RunEv 0, RunEv 0, CloseEv, RunEv 0, RunEv 0] (newRun (NewLkManager c), []) of
     (lr, h) \<Rightarrow>
       lrProcs lr = [] \<and> gget (lkParticipants (lrMgr lr)) 7 = Some \<lparr>ptRoom = 1, ptTrack = 0\<rparr> \<and>
       gget (lrRooms lr) 1 = Some 7 \<and> Lk (LkDisconnect 1) \<notin> set h"
  by (simp add: WriteOpus_def newRun_def NewLkManager_def ensureClaim_def callErr_def closeTake_def
      ensureInstall_def Let_def List.map_filter_def)

end
