(* ===== verification/Subscriber.thy ===== *)
theory Subscriber
  imports LkManager "HOL-Library.Signed_Division"
begin

text \<open>
  \<^verbatim>\<open>pkg/livekit/subscriber.go\<close>: the way from Matrix to Discord. One remote speaker is passed through as
  raw Opus; two or more are decoded, attenuated, mixed, soft-limited and encoded again. The Opus codec
  and the mixer are third-party; the codec's results are parameters.
\<close>

section \<open>Constants\<close>

type_synonym i16 = "16 word"

definition sampleRate :: nat where "sampleRate = 48000"
definition encodeChannels :: nat where "encodeChannels = 2"
definition opusFrameMs :: nat where "opusFrameMs = 20"
definition samplesPerFrame :: nat where "samplesPerFrame = sampleRate * opusFrameMs div 1000"

lemma samplesPerFrame_960 [simp]: "samplesPerFrame = 960"
  by (simp add: samplesPerFrame_def sampleRate_def opusFrameMs_def)

section \<open>The soft limiter\<close>

text \<open>
  The Go code computes in \<^verbatim>\<open>int32\<close>; every intermediate value lies within \<open>-32768..32768\<close>, so \<open>int\<close>
  gives the same numbers.
\<close>

definition softLimit :: "i16 \<Rightarrow> i16" where
  "softLimit s =
     (let threshold = 8192; ratio = 10; x = sint s; a = (if x < 0 then - x else x)
      in if a \<le> threshold then s
         else
           let excess = a - threshold;
               compressed0 = threshold + excess sdiv ratio;
               compressed = (if compressed0 > 32767 then 32767 else compressed0)
           in if x < 0 then word_of_int (- compressed) else word_of_int compressed)"

section \<open>The gain\<close>

text \<open>
  \<^verbatim>\<open>float64(mono) * inputGain\<close>: the constant is \<open>5854679515581645 / 2 ^ 53\<close>, the double nearest to 0.65;
  the exact product of the magnitudes is rounded to 53 bits, ties to even, and the conversion to
  \<^verbatim>\<open>int16\<close> truncates towards zero.
\<close>

function bitLen :: "int \<Rightarrow> nat" where
  "bitLen n = (if n \<le> 0 then 0 else Suc (bitLen (n div 2)))"
  by pat_completeness auto
termination
  by (relation "measure nat") auto

declare bitLen.simps [simp del]

definition round53 :: "int \<Rightarrow> int" where
  "round53 n =
     (let sh = bitLen n - 53; q = n div 2 ^ sh; r = n mod 2 ^ sh
      in (if 2 * r < 2 ^ sh \<or> (2 * r = 2 ^ sh \<and> even q) then q else q + 1) * 2 ^ sh)"

definition inputGainBits :: int where "inputGainBits = 5854679515581645"

definition applyGain :: "int \<Rightarrow> i16" where
  "applyGain m =
     (let mag = round53 (\<bar>m\<bar> * inputGainBits) div 2 ^ 53
      in word_of_int (if m < 0 then - mag else mag))"

text \<open>The downmix of one stereo sample; \<^verbatim>\<open>/\<close> truncates.\<close>

definition downmix :: "i16 \<times> i16 \<Rightarrow> i16" where
  "downmix lr = applyGain ((sint (fst lr) + sint (snd lr)) sdiv 2)"

section \<open>The mixer's output\<close>

record opusOutput =
  ooMono :: "i16 list"
  ooPos :: nat
  ooMuted :: bool

text \<open>
  What the output has done: the frames given to the encoder, and the packets given to the handler. The
  encoder's and the handler's answers depend on all they have been given.
\<close>

record ooTrace =
  ooEncoded :: "i16 list list"
  ooDelivered :: "bytes list"

definition freshOutput :: opusOutput where
  "freshOutput = \<lparr>ooMono = replicate samplesPerFrame 0, ooPos = 0, ooMuted = False\<rparr>"

definition newOpusOutput :: "env \<Rightarrow> history \<Rightarrow> (goerror + opusOutput) \<times> history" where
  "newOpusOutput env h =
     (case callErr env (Lk (OpusNewEncoder sampleRate encodeChannels)) h of
        (Some e, h1) \<Rightarrow> (Inl (wrapErr ''create opus encoder'' e), h1)
      | (None, h1) \<Rightarrow>
          (case callErr env (Lk (OpusSetBitrate 128000)) h1 of
             (Some e, h2) \<Rightarrow> (Inl (wrapErr ''set bitrate'' e), h2)
           | (None, h2) \<Rightarrow>
               (case callErr env (Lk (OpusSetComplexity 10)) h2 of
                  (Some e, h3) \<Rightarrow> (Inl (wrapErr ''set complexity'' e), h3)
                | (None, h3) \<Rightarrow> (Inr freshOutput, h3))))"

definition stereoFrame :: "i16 list \<Rightarrow> i16 list" where
  "stereoFrame ms = concat (map (\<lambda>m. let s = softLimit m in [s, s]) (take samplesPerFrame ms))"

type_synonym encoder = "i16 list list \<Rightarrow> goerror + bytes"
type_synonym frameHandler = "bytes list \<Rightarrow> goerror option"

text \<open>
  The loop of \<^verbatim>\<open>WriteSample\<close> on what is left of the sample. The buffer \<open>ooMono\<close> always has 960 elements,
  so a round that copies nothing has a full buffer (\<open>writeLoop_progress\<close> below); the branch for a round that
  neither copies nor encodes is there to make the function total.
\<close>

function writeLoop ::
  "encoder \<Rightarrow> frameHandler \<Rightarrow> i16 list \<Rightarrow> opusOutput \<times> ooTrace \<Rightarrow> goerror option \<times> opusOutput \<times> ooTrace" where
  "writeLoop enc handler sample st =
     (let (o1, t) = st in
      if sample = [] then (None, o1, t)
      else
        let n = min (length (ooMono o1) - ooPos o1) (length sample);
            o2 = o1\<lparr>ooMono := take (ooPos o1) (ooMono o1) @ take n sample @ drop (ooPos o1 + n) (ooMono o1),
                    ooPos := ooPos o1 + n\<rparr>;
            rest = drop n sample
        in if ooPos o2 \<ge> samplesPerFrame
           then
             let fr = stereoFrame (ooMono o2); t1 = t\<lparr>ooEncoded := ooEncoded t @ [fr]\<rparr>
             in (case enc (ooEncoded t1) of
                   Inl _ \<Rightarrow> writeLoop enc handler rest (o2\<lparr>ooPos := 0\<rparr>, t1)
                 | Inr packet \<Rightarrow>
                     let t2 = t1\<lparr>ooDelivered := ooDelivered t1 @ [packet]\<rparr>
                     in (case handler (ooDelivered t2) of
                           Some err \<Rightarrow> (Some err, o2, t2)
                         | None \<Rightarrow> writeLoop enc handler rest (o2\<lparr>ooPos := 0\<rparr>, t2)))
           else if n = 0 then (None, o2, t)
           else writeLoop enc handler rest (o2, t))"
  by pat_completeness auto
termination
  by (relation "measures [\<lambda>(enc, handler, sample, o1, t). length sample, \<lambda>(enc, handler, sample, o1, t). ooPos o1]")
    (auto simp: min_def)

declare writeLoop.simps [simp del]

definition WriteSample ::
  "encoder \<Rightarrow> frameHandler \<Rightarrow> i16 list \<Rightarrow> opusOutput \<times> ooTrace \<Rightarrow> goerror option \<times> opusOutput \<times> ooTrace" where
  "WriteSample enc handler sample st =
     (if ooMuted (fst st) then (None, st) else writeLoop enc handler sample st)"

section \<open>Limiter and gain\<close>

lemma i16_range: "- 32768 \<le> sint (s :: i16)" "sint (s :: i16) \<le> 32767"
  using sint_greater_eq [of s] sint_less [of s] by simp_all

lemma sint_i16: "- 32768 \<le> k \<Longrightarrow> k \<le> 32767 \<Longrightarrow> sint (word_of_int k :: i16) = k"
  by (simp add: sint_sbintrunc' signed_take_bit_int_eq_self)

lemma sdiv_nonneg: "0 \<le> a \<Longrightarrow> 0 < b \<Longrightarrow> a sdiv b = a div (b :: int)"
  by (simp add: signed_divide_int_def sgn_if)

text \<open>What the limiter does, as one formula.\<close>

definition limited :: "int \<Rightarrow> int" where
  "limited x = (if \<bar>x\<bar> \<le> 8192 then x else sgn x * (8192 + (\<bar>x\<bar> - 8192) div 10))"

lemma limited_bound: "\<bar>x\<bar> \<le> 32768 \<Longrightarrow> \<bar>limited x\<bar> \<le> 10649"
  by (auto simp: limited_def sgn_if)

lemma limited_mono: "x \<le> y \<Longrightarrow> limited x \<le> limited y"
  by (auto simp: limited_def sgn_if zdiv_mono1)

lemma softLimit_limited: "sint (softLimit s) = limited (sint s)"
proof -
  have r: "- 32768 \<le> sint s" "sint s \<le> 32767" by (rule i16_range)+
  show ?thesis
    using r by (auto simp: softLimit_def limited_def Let_def sdiv_nonneg sgn_if sint_i16
        simp del: of_int_add of_int_diff of_int_minus)
qed

lemma bitLen_le: "n < 2 ^ k \<Longrightarrow> bitLen n \<le> k"
proof (induction k arbitrary: n)
  case 0
  then show ?case by (simp add: bitLen.simps [of n])
next
  case (Suc k)
  have "n div 2 < 2 ^ k" using Suc.prems by auto
  then show ?case using Suc.IH [of "n div 2"] by (simp add: bitLen.simps [of n])
qed

lemma round53_upper: "round53 n \<le> n + 2 ^ (bitLen n - 53)"
proof -
  let ?d = "2 ^ (bitLen n - 53) :: int"
  have "n div ?d * ?d \<le> n" by (simp add: mult.commute [of _ ?d] minus_mod_eq_mult_div [symmetric])
  moreover have "(n div ?d + 1) * ?d = n div ?d * ?d + ?d" by (simp add: algebra_simps)
  moreover have "0 \<le> ?d" by simp
  ultimately have "n div ?d * ?d \<le> n + ?d" "(n div ?d + 1) * ?d \<le> n + ?d" by linarith+
  then show ?thesis unfolding round53_def Let_def by (simp only: split: if_split) blast
qed

lemma round53_lower:
  assumes "k * 2 ^ (bitLen n - 53) \<le> n"
  shows "k * 2 ^ (bitLen n - 53) \<le> round53 n"
proof -
  let ?d = "2 ^ (bitLen n - 53) :: int"
  have "k \<le> n div ?d" using assms by (simp add: zdiv_mono1 [of "k * ?d" n ?d, simplified])
  then have "k * ?d \<le> n div ?d * ?d" "k * ?d \<le> (n div ?d + 1) * ?d" by simp_all
  then show ?thesis by (simp add: round53_def Let_def)
qed

lemma gain_exact:
  assumes "0 \<le> m" and "m \<le> 32768"
  shows "round53 (m * inputGainBits) div 2 ^ 53 = 13 * m div 20"
proof -
  let ?n = "m * inputGainBits"
  obtain N where N: "N = m * inputGainBits" by simp
  obtain t r where t: "t = 13 * m div 20" and r: "r = 13 * m mod 20" by simp
  have "20 * inputGainBits = 13 * 2 ^ 53 + 4" by (simp add: inputGainBits_def)
  then have "20 * ?n = m * (13 * 2 ^ 53 + 4)" by (metis mult.left_commute)
  also have "\<dots> = 2 ^ 53 * (13 * m) + 4 * m" by (simp only: algebra_simps)
  also have "13 * m = 20 * t + r" by (simp add: t r)
  finally have n20: "20 * ?n = 2 ^ 53 * (20 * t + r) + 4 * m" .
  have "?n < 2 ^ 68" using assms by (simp add: inputGainBits_def)
  then have sh: "bitLen ?n - 53 \<le> 15" using bitLen_le [of ?n 68] by simp
  then have d: "(2 :: int) ^ (bitLen ?n - 53) \<le> 2 ^ 15" by (rule power_increasing) simp
  have "0 \<le> r" "r \<le> 19" by (simp_all add: r)
  moreover have "20 * N = 180143985094819840 * t + 9007199254740992 * r + 4 * m"
    using n20 by (simp add: N)
  ultimately have "9007199254740992 * t \<le> N" "N + 32768 < 9007199254740992 * t + 9007199254740992"
    using assms by linarith+
  then have lo: "2 ^ 53 * t \<le> ?n" and hi: "?n + 2 ^ 15 < 2 ^ 53 * (t + 1)"
    by (simp_all add: N)
  have "(2 :: int) ^ 53 = 2 ^ (53 - (bitLen ?n - 53)) * 2 ^ (bitLen ?n - 53)"
    using sh by (simp flip: power_add)
  with lo have "2 ^ 53 * t \<le> round53 ?n"
    using round53_lower [of "t * 2 ^ (53 - (bitLen ?n - 53))" ?n] by (simp add: mult_ac)
  moreover have "round53 ?n < 2 ^ 53 * (t + 1)"
    using hi d round53_upper [of ?n] by linarith
  ultimately have "round53 ?n div 2 ^ 53 = t"
    by (intro int_div_pos_eq [of _ _ _ "round53 ?n - 2 ^ 53 * t"]) auto
  then show ?thesis by (simp add: t)
qed

lemma sdiv_sgn: "0 < b \<Longrightarrow> a sdiv b = sgn a * (\<bar>a\<bar> div (b :: int))"
  by (simp add: signed_divide_int_def sgn_if)

lemma applyGain_exact:
  assumes "\<bar>m\<bar> \<le> 32768"
  shows "sint (applyGain m) = 13 * m sdiv 20"
proof -
  have "round53 (\<bar>m\<bar> * inputGainBits) div 2 ^ 53 = 13 * \<bar>m\<bar> div 20"
    using gain_exact [of "\<bar>m\<bar>"] assms by simp
  moreover have "13 * \<bar>m\<bar> div 20 \<le> 13 * 32768 div 20" "0 \<le> 13 * \<bar>m\<bar> div 20"
    using assms by (auto intro: zdiv_mono1)
  ultimately show ?thesis
    by (auto simp: applyGain_def Let_def sint_i16 sdiv_sgn sgn_if abs_mult
        simp del: of_int_add of_int_diff of_int_minus)
qed

text \<open>
  C34: The limiter passes quiet samples unchanged, compresses louder ones ten to one, is monotone and
  odd, and never exceeds 10649, so the final clamp to 32767 is never needed.
\<close>

theorem sub_soft_limit:
  "sint (softLimit s) = limited (sint s) \<and> \<bar>sint (softLimit s)\<bar> \<le> 10649 \<and>
   0 \<le> (sint (softLimit s) - sint (softLimit t)) * (sint s - sint t) \<and>
   limited (- sint s) = - limited (sint s)"
proof -
  have "0 \<le> (limited x - limited y) * (x - y)" for x y
    using limited_mono [of x y] limited_mono [of y x] by (cases "x \<le> y") (auto simp: zero_le_mult_iff)
  moreover have "\<bar>sint s\<bar> \<le> 32768" using i16_range [of s] by simp
  moreover have "limited (- x) = - limited x" for x by (simp add: limited_def)
  ultimately show ?thesis by (simp add: softLimit_limited limited_bound)
qed

text \<open>
  C33: The downmix of a stereo sample is the truncated mean attenuated by exactly 13/20, truncated: the
  rounding of the double 0.65 never shows; no input overflows, and no output exceeds 21299.
\<close>

theorem sub_downmix_exact:
  "sint (downmix (l, r)) = 13 * ((sint l + sint r) sdiv 2) sdiv 20 \<and> \<bar>sint (downmix (l, r))\<bar> \<le> 21299"
proof -
  obtain m where def: "m = (sint l + sint r) sdiv 2" by simp
  have m: "\<bar>m\<bar> \<le> 32768" unfolding def
    using i16_range [of l] i16_range [of r] by (simp add: sdiv_sgn sgn_if abs_mult) arith
  then have "13 * \<bar>m\<bar> div 20 \<le> 13 * 32768 div 20" by (intro zdiv_mono1) auto
  moreover have "0 \<le> 13 * \<bar>m\<bar> div 20" by simp
  ultimately have "\<bar>13 * m sdiv 20\<bar> \<le> 21299"
    by (simp add: sdiv_sgn [of 20] abs_mult abs_sgn_eq)
  with applyGain_exact [OF m] show ?thesis
    by (simp add: downmix_def flip: def)
qed

section \<open>Framing\<close>

text \<open>The full frames of a stream of samples, and what is left over.\<close>

definition fullFrames :: "i16 list \<Rightarrow> i16 list list" where
  "fullFrames xs = map (\<lambda>i. take 960 (drop (960 * i) xs)) [0..<length xs div 960]"

definition leftover :: "i16 list \<Rightarrow> i16 list" where
  "leftover xs = drop (960 * (length xs div 960)) xs"

lemma fullFrames_short [simp]: "length xs < 960 \<Longrightarrow> fullFrames xs = []" "length xs < 960 \<Longrightarrow> leftover xs = xs"
  by (simp_all add: fullFrames_def leftover_def)


lemma leftover_length: "length (leftover xs) < 960"
  by (simp add: leftover_def minus_mult_div_eq_mod)

text \<open>Packets the encoder produced for the frames numbered from \<open>k\<close>.\<close>

definition packets :: "encoder \<Rightarrow> i16 list list \<Rightarrow> nat \<Rightarrow> bytes list" where
  "packets enc frs k = List.map_filter
     (\<lambda>i. case enc (take (Suc i) frs) of Inl _ \<Rightarrow> None | Inr p \<Rightarrow> Some p) [k..<length frs]"

lemma packets_end [simp]: "packets enc frs (length frs) = []"
  by (simp add: packets_def List.map_filter_def)


definition ooWF :: "opusOutput \<Rightarrow> bool" where
  "ooWF out \<longleftrightarrow> length (ooMono out) = 960 \<and> ooPos out \<le> 960"

text \<open>The buffer after one round of copying, and what is left of the sample.\<close>

definition filled :: "i16 list \<Rightarrow> opusOutput \<Rightarrow> opusOutput" where
  "filled sample o1 =
     (let n = min (960 - ooPos o1) (length sample)
      in o1\<lparr>ooMono := take (ooPos o1) (ooMono o1) @ take n sample @ drop (ooPos o1 + n) (ooMono o1),
             ooPos := ooPos o1 + n\<rparr>)"

lemma filled:
  assumes "ooWF o1" and "ooPos o1 < 960" and "sample \<noteq> []"
  shows "ooWF (filled sample o1)" and "ooMuted (filled sample o1) = ooMuted o1"
    and "length (drop (960 - ooPos o1) sample) < length sample"
    and "take (ooPos o1) (ooMono o1) @ sample =
       take (ooPos (filled sample o1)) (ooMono (filled sample o1)) @ drop (960 - ooPos o1) sample"
  using assms by (cases sample; auto simp: filled_def Let_def ooWF_def min_def)+

lemma writeLoop_progress:
  assumes "ooWF o1" and "ooPos o1 < 960" and "sample \<noteq> []"
  shows "writeLoop enc handler sample (o1, t) =
     (let o2 = filled sample o1; rest = drop (960 - ooPos o1) sample;
          t1 = t\<lparr>ooEncoded := ooEncoded t @ [stereoFrame (ooMono o2)]\<rparr>
      in if ooPos o2 = 960
         then (case enc (ooEncoded t1) of
                 Inl _ \<Rightarrow> writeLoop enc handler rest (o2\<lparr>ooPos := 0\<rparr>, t1)
               | Inr packet \<Rightarrow>
                   let t2 = t1\<lparr>ooDelivered := ooDelivered t1 @ [packet]\<rparr>
                   in (case handler (ooDelivered t2) of
                         Some err \<Rightarrow> (Some err, o2, t2)
                       | None \<Rightarrow> writeLoop enc handler rest (o2\<lparr>ooPos := 0\<rparr>, t2)))
         else writeLoop enc handler rest (o2, t))"
proof -
  have len: "length (ooMono o1) = 960" using assms(1) by (simp add: ooWF_def)
  have rest: "drop (min (960 - ooPos o1) (length sample)) sample = drop (960 - ooPos o1) sample"
    by (simp add: min_def)
  have "min (960 - ooPos o1) (length sample) \<noteq> 0" using assms(2,3) by auto
  moreover have "(960 \<le> ooPos (filled sample o1)) = (ooPos (filled sample o1) = 960)"
    using filled(1) [OF assms] by (auto simp: ooWF_def)
  ultimately show ?thesis
    using assms(3)
    by (subst writeLoop.simps) (simp add: Let_def len rest filled_def cong: if_cong sum.case_cong option.case_cong)
qed







section \<open>Tracks\<close>

datatype trackMode = ModePassthrough | ModeMixer

text \<open>
  A track entry is shared between the map of tracks and its read goroutine, so the entries live in a
  list and the map holds positions. \<open>teInput\<close> names an input of the mixer; the mixer's own record of its
  inputs is \<open>sbInputs\<close>: \<^verbatim>\<open>NewInput\<close> adds one, \<^verbatim>\<open>RemoveInput\<close> takes one away.
\<close>

record trackEntry =
  teMode :: trackMode
  teInput :: "nat option"
  teCancelled :: bool

record subscriber =
  sbConfig :: lkConfig
  sbRoom :: "nat option"
  sbMuted :: bool
  sbEntries :: "trackEntry list"
  sbTracks :: "(string, nat) gomap"
  sbInputs :: "nat list"
  sbNextInput :: nat
  sbStopped :: bool

definition updEntry :: "nat \<Rightarrow> (trackEntry \<Rightarrow> trackEntry) \<Rightarrow> subscriber \<Rightarrow> subscriber" where
  "updEntry i f s = s\<lparr>sbEntries := (sbEntries s)[i := f (sbEntries s ! i)]\<rparr>"

text \<open>The entries of the map, in the order a \<^verbatim>\<open>range\<close> visits them.\<close>

definition trackOrder :: "nat list \<Rightarrow> subscriber \<Rightarrow> nat list" where
  "trackOrder ord s = map (\<lambda>sid. the (gget (sbTracks s) sid)) (pick ord (gkeys (sbTracks s)))"

definition removeInput :: "nat option \<Rightarrow> subscriber \<Rightarrow> subscriber" where
  "removeInput inp s = (case inp of None \<Rightarrow> s | Some k \<Rightarrow> s\<lparr>sbInputs := filter (\<lambda>j. j \<noteq> k) (sbInputs s)\<rparr>)"

definition mixerEntry :: "nat \<Rightarrow> subscriber \<Rightarrow> subscriber" where
  "mixerEntry i s =
     (let s1 = (if teInput (sbEntries s ! i) = None
                then (updEntry i (\<lambda>e. e\<lparr>teInput := Some (sbNextInput s)\<rparr>) s)
                       \<lparr>sbInputs := sbInputs s @ [sbNextInput s], sbNextInput := Suc (sbNextInput s)\<rparr>
                else s)
      in updEntry i (\<lambda>e. e\<lparr>teMode := ModeMixer\<rparr>) s1)"

definition activateMixerLocked :: "nat list \<Rightarrow> subscriber \<Rightarrow> subscriber" where
  "activateMixerLocked ord s = (fold mixerEntry (trackOrder ord s) s)\<lparr>sbMuted := False\<rparr>"

definition passEntry :: "nat \<Rightarrow> subscriber \<Rightarrow> subscriber" where
  "passEntry i s =
     updEntry i (\<lambda>e. e\<lparr>teMode := ModePassthrough, teInput := None\<rparr>)
       (removeInput (teInput (sbEntries s ! i)) s)"

definition activatePassthroughLocked :: "nat list \<Rightarrow> subscriber \<Rightarrow> subscriber" where
  "activatePassthroughLocked ord s = (fold passEntry (trackOrder ord s) s)\<lparr>sbMuted := True\<rparr>"

text \<open>Closing a channel twice panics.\<close>

definition cancelEntry :: "nat \<Rightarrow> subscriber \<Rightarrow> subscriber option" where
  "cancelEntry i s =
     (if teCancelled (sbEntries s ! i) then None else Some (updEntry i (\<lambda>e. e\<lparr>teCancelled := True\<rparr>) s))"

definition bridgeIdentity :: "string \<Rightarrow> bool" where
  "bridgeIdentity ident \<longleftrightarrow>
     hasPrefix ident ''discord:'' \<or> hasPrefix ident ''@discord_'' \<or> ident = ''discord-bridge-listener''"

definition NewSubscriber :: "env \<Rightarrow> lkConfig \<Rightarrow> history \<Rightarrow> (goerror + subscriber) \<times> history" where
  "NewSubscriber env config h =
     (case newOpusOutput env h of
        (Inl e, h1) \<Rightarrow> (Inl e, h1)
      | (Inr out, h1) \<Rightarrow>
          (case callErr env (Lk MixerNew) h1 of
             (Some e, h2) \<Rightarrow> (Inl (wrapErr ''create mixer'' e), h2)
           | (None, h2) \<Rightarrow>
               (case callErr env (Lk (LkConnect (lkURL config) (lkRoomName config) ''discord-bridge-listener'')) h2 of
                  (Some e, h3) \<Rightarrow> (Inl (wrapErr ''connect subscriber'' e), h3 @ [Lk MixerStop])
                | (None, h3) \<Rightarrow>
                    (Inr \<lparr>sbConfig = config, sbRoom = Some (length h2), sbMuted = True, sbEntries = [],
                          sbTracks = [], sbInputs = [], sbNextInput = 0, sbStopped = False\<rparr>, h3))))"

definition onTrackSubscribed :: "nat list \<Rightarrow> string \<Rightarrow> bool \<Rightarrow> string \<Rightarrow> subscriber \<Rightarrow> subscriber" where
  "onTrackSubscribed ord ident isAudio sid s =
     (if bridgeIdentity ident then s
      else if \<not> isAudio then s
      else
        let i = length (sbEntries s);
            s1 = s\<lparr>sbEntries := sbEntries s @ [\<lparr>teMode = ModePassthrough, teInput = None, teCancelled = False\<rparr>],
                   sbTracks := gput sid i (sbTracks s)\<rparr>
        in if glen (sbTracks s1) = 1
           then (updEntry i (\<lambda>e. e\<lparr>teMode := ModePassthrough\<rparr>) s1)\<lparr>sbMuted := True\<rparr>
           else activateMixerLocked ord s1)"

definition onTrackUnsubscribed :: "nat list \<Rightarrow> string \<Rightarrow> subscriber \<Rightarrow> subscriber option" where
  "onTrackUnsubscribed ord sid s =
     (let found = gget (sbTracks s) sid;
          s1 = s\<lparr>sbTracks := gdel sid (sbTracks s)\<rparr>;
          s2 = (case found of
                  None \<Rightarrow> Some s1
                | Some i \<Rightarrow>
                    (case cancelEntry i s1 of
                       None \<Rightarrow> None
                     | Some s3 \<Rightarrow> Some (updEntry i (\<lambda>e. e\<lparr>teInput := None\<rparr>)
                                    (removeInput (teInput (sbEntries s3 ! i)) s3))))
      in case s2 of
           None \<Rightarrow> None
         | Some s4 \<Rightarrow>
             Some (if glen (sbTracks s4) = 1 then activatePassthroughLocked ord s4
                   else if glen (sbTracks s4) = 0 then s4\<lparr>sbMuted := True\<rparr> else s4))"

text \<open>\<^verbatim>\<open>Close\<close>: the entries keep their inputs, the mixer loses them.\<close>

fun closeEntries :: "nat list \<Rightarrow> subscriber \<Rightarrow> subscriber option" where
  "closeEntries [] s = Some s"
| "closeEntries (i # is) s =
     (case cancelEntry i s of
        None \<Rightarrow> None
      | Some s1 \<Rightarrow> closeEntries is (removeInput (teInput (sbEntries s1 ! i)) s1))"

definition CloseSubscriber :: "nat list \<Rightarrow> subscriber \<times> history \<Rightarrow> (subscriber \<times> history) option" where
  "CloseSubscriber ord sh =
     (let (s, h) = sh in
      case closeEntries (trackOrder ord s) s of
        None \<Rightarrow> None
      | Some s1 \<Rightarrow>
          Some (s1\<lparr>sbTracks := [], sbStopped := True\<rparr>,
                h @ [Lk MixerStop] @ (case sbRoom s of None \<Rightarrow> [] | Some r \<Rightarrow> [Lk (LkDisconnect r)])))"

section \<open>The read goroutine of a track\<close>

datatype trackOut =
    TrackEnds
  | TrackSkips
  | TrackPasses bytes
  | TrackMixes nat "i16 list"

text \<open>
  One round of \<^verbatim>\<open>trackLoop\<close>: \<open>pkt\<close> is what \<^verbatim>\<open>ReadRTP\<close> returned, \<open>dec\<close> the Opus decoder with the stereo
  samples it wrote. After \<open>TrackPasses\<close> the goroutine ends when the handler fails.
\<close>

definition trackRound ::
  "(bytes \<Rightarrow> goerror + (i16 \<times> i16) list) \<Rightarrow> (goerror + bytes) \<Rightarrow> trackEntry \<Rightarrow> trackOut" where
  "trackRound dec pkt entry =
     (if teCancelled entry then TrackEnds
      else case pkt of
        Inl _ \<Rightarrow> TrackEnds
      | Inr payload \<Rightarrow>
          if payload = [] then TrackSkips
          else if teMode entry = ModePassthrough then TrackPasses payload
          else (case teInput entry of
                  None \<Rightarrow> TrackSkips
                | Some input \<Rightarrow>
                    (case dec payload of
                       Inl _ \<Rightarrow> TrackSkips
                     | Inr stereo \<Rightarrow> TrackMixes input (map downmix stereo))))"

section \<open>Runs\<close>

datatype subEvent =
    SubscribedEv "nat list" string bool string
  | UnsubscribedEv "nat list" string
  | CloseSubEv "nat list"

text \<open>\<open>None\<close> is a panic.\<close>

fun subStep :: "subEvent \<Rightarrow> subscriber option \<Rightarrow> subscriber option" where
  "subStep ev None = None"
| "subStep (SubscribedEv ord ident isAudio sid) (Some s) = Some (onTrackSubscribed ord ident isAudio sid s)"
| "subStep (UnsubscribedEv ord sid) (Some s) = onTrackUnsubscribed ord sid s"
| "subStep (CloseSubEv ord) (Some s) = map_option fst (CloseSubscriber ord (s, []))"

text \<open>
  The invariant: the map leads to distinct live entries; one track alone is passed through with the mixer's
  output muted, and as soon as there are more, every one has an input of its own in the mixer.
\<close>

definition tracked :: "subscriber \<Rightarrow> nat set" where
  "tracked s = {i. \<exists>sid. gget (sbTracks s) sid = Some i}"

definition subWF :: "subscriber \<Rightarrow> bool" where
  "subWF s \<longleftrightarrow>
     (\<forall>i \<in> tracked s. i < length (sbEntries s) \<and> \<not> teCancelled (sbEntries s ! i)) \<and>
     (\<forall>a b i. gget (sbTracks s) a = Some i \<and> gget (sbTracks s) b = Some i \<longrightarrow> a = b)"

definition subModes :: "subscriber \<Rightarrow> bool" where
  "subModes s \<longleftrightarrow>
     (if glen (sbTracks s) = 0 then sbMuted s \<or> sbStopped s
      else if glen (sbTracks s) = 1
      then sbMuted s \<and> (\<forall>i \<in> tracked s. teMode (sbEntries s ! i) = ModePassthrough \<and> teInput (sbEntries s ! i) = None)
      else \<not> sbMuted s \<and>
           (\<forall>i \<in> tracked s. teMode (sbEntries s ! i) = ModeMixer \<and>
              (\<exists>k. teInput (sbEntries s ! i) = Some k)))"

text \<open>
  Input numbers: below the next one, never two entries with the same, and those of tracked entries known
  to the mixer.
\<close>

definition inputsOK :: "nat \<Rightarrow> nat set \<Rightarrow> (nat \<Rightarrow> nat option) \<Rightarrow> nat \<Rightarrow> nat set \<Rightarrow> bool" where
  "inputsOK n T inp nx ins \<longleftrightarrow>
     (\<forall>i < n. \<forall>k. inp i = Some k \<longrightarrow> k < nx) \<and>
     (\<forall>i < n. \<forall>j < n. \<forall>k. inp i = Some k \<and> inp j = Some k \<longrightarrow> i = j) \<and>
     (\<forall>i \<in> T. \<forall>k. inp i = Some k \<longrightarrow> k \<in> ins)"

lemma inputsOK_fresh:
  assumes "inputsOK n T inp nx ins" and "i < n"
  shows "inputsOK n T (inp(i := Some nx)) (Suc nx) (insert nx ins)"
  using assms unfolding inputsOK_def fun_upd_apply
  by (auto simp: less_Suc_eq; metis less_irrefl)

lemma inputsOK_remove:
  assumes "inputsOK n T inp nx ins" and "i < n" and "T \<subseteq> {..<n}"
  shows "inputsOK n T (inp(i := None)) nx {k \<in> ins. Some k \<noteq> inp i}"
proof -
  have "inp j \<noteq> Some k" if "j \<in> T" "j \<noteq> i" "inp i = Some k" for j k
    using assms that unfolding inputsOK_def by (metis lessThan_iff subsetD)
  then show ?thesis
    using assms unfolding inputsOK_def by (auto simp: eq_commute [of "Some _"])
qed

lemma inputsOK_extend:
  assumes "inputsOK n T inp nx ins" and "T \<subseteq> {..<n}" and "T' \<subseteq> insert n T"
    and "\<forall>j < n. inp' j = inp j" and "inp' n = None"
  shows "inputsOK (Suc n) T' inp' nx ins"
proof -
  have "inp' j = inp j" if "j \<in> T" for j using assms(2,4) that by auto
  then have "k \<in> ins" if "j \<in> T'" "inp' j = Some k" for j k
    using assms(1,3,5) that unfolding inputsOK_def by (metis insert_iff option.distinct(1) subsetD)
  then show ?thesis
    using assms(1,4,5) unfolding inputsOK_def by (simp add: All_less_Suc)
qed

definition inputOf :: "subscriber \<Rightarrow> nat \<Rightarrow> nat option" where
  "inputOf s i = teInput (sbEntries s ! i)"

definition subInp :: "subscriber \<Rightarrow> bool" where
  "subInp s \<longleftrightarrow> inputsOK (length (sbEntries s)) (tracked s) (inputOf s) (sbNextInput s) (set (sbInputs s))"

definition subInv :: "subscriber \<Rightarrow> bool" where
  "subInv s \<longleftrightarrow> subWF s \<and> subModes s \<and> subInp s"

text \<open>What switching modes leaves alone.\<close>

definition sameShape :: "subscriber \<Rightarrow> subscriber \<Rightarrow> bool" where
  "sameShape s s' \<longleftrightarrow> sbTracks s' = sbTracks s \<and> map teCancelled (sbEntries s') = map teCancelled (sbEntries s) \<and>
     sbStopped s' = sbStopped s \<and> sbRoom s' = sbRoom s"

lemma sameShape_refl [simp]: "sameShape s s"
  by (simp add: sameShape_def)

lemma sameShape_trans: "sameShape s s' \<Longrightarrow> sameShape s' s'' \<Longrightarrow> sameShape s s''"
  by (simp add: sameShape_def)

lemma sameShape_length: "sameShape s s' \<Longrightarrow> length (sbEntries s') = length (sbEntries s)"
  unfolding sameShape_def by (metis length_map)

lemma sameShape_tracked: "sameShape s s' \<Longrightarrow> tracked s' = tracked s"
  by (simp add: sameShape_def tracked_def)

lemma sameShape_cancelled:
  "sameShape s s' \<Longrightarrow> i < length (sbEntries s) \<Longrightarrow> teCancelled (sbEntries s' ! i) = teCancelled (sbEntries s ! i)"
  unfolding sameShape_def by (metis length_map nth_map)

lemma sameShape_WF: "sameShape s s' \<Longrightarrow> subWF s \<Longrightarrow> subWF s'"
  using sameShape_length [of s s'] sameShape_tracked [of s s'] sameShape_cancelled [of s s']
  by (auto simp: subWF_def sameShape_def)

lemma map_cancelled_update:
  "i < length es \<Longrightarrow> teCancelled e = teCancelled (es ! i) \<Longrightarrow> map teCancelled (es[i := e]) = map teCancelled es"
  by (simp add: map_update list_update_same_conv)

lemma mixerEntry:
  assumes "i < length (sbEntries s)"
  shows "sameShape s (mixerEntry i s)" and "sbMuted (mixerEntry i s) = sbMuted s"
    and "sbEntries (mixerEntry i s) ! j = (if j = i then (sbEntries s ! i)\<lparr>teMode := ModeMixer,
           teInput := (case teInput (sbEntries s ! i) of None \<Rightarrow> Some (sbNextInput s) | Some k \<Rightarrow> Some k)\<rparr>
         else sbEntries s ! j)"
    and "subInp s \<Longrightarrow> subInp (mixerEntry i s)"
proof -
  show sh: "sameShape s (mixerEntry i s)" and "sbMuted (mixerEntry i s) = sbMuted s"
    using assms by (auto simp: mixerEntry_def updEntry_def sameShape_def map_cancelled_update Let_def)
  show nth: "sbEntries (mixerEntry i s) ! j = (if j = i then (sbEntries s ! i)\<lparr>teMode := ModeMixer,
           teInput := (case teInput (sbEntries s ! i) of None \<Rightarrow> Some (sbNextInput s) | Some k \<Rightarrow> Some k)\<rparr>
         else sbEntries s ! j)" for j
    using assms by (auto simp: mixerEntry_def updEntry_def Let_def nth_list_update split: option.splits)
  have inp: "inputOf (mixerEntry i s) =
      (if inputOf s i = None then (inputOf s)(i := Some (sbNextInput s)) else inputOf s)"
    by (auto simp: inputOf_def nth fun_eq_iff split: option.split)
  have next_in: "sbNextInput (mixerEntry i s) = (if teInput (sbEntries s ! i) = None then Suc (sbNextInput s) else sbNextInput s)"
    "set (sbInputs (mixerEntry i s)) =
       (if teInput (sbEntries s ! i) = None then insert (sbNextInput s) (set (sbInputs s)) else set (sbInputs s))"
    by (simp_all add: mixerEntry_def updEntry_def Let_def)
  show "subInp (mixerEntry i s)" if "subInp s"
    using that assms sameShape_length [OF sh] sameShape_tracked [OF sh]
      inputsOK_fresh [of "length (sbEntries s)" "tracked s" "inputOf s" "sbNextInput s" "set (sbInputs s)" i]
    unfolding subInp_def inp next_in inputOf_def by simp
qed

lemma fold_mixerEntry:
  assumes "\<forall>i \<in> set is. i < length (sbEntries s)"
  shows "sameShape s (fold mixerEntry is s) \<and> (subInp s \<longrightarrow> subInp (fold mixerEntry is s)) \<and>
     (\<forall>j. (j \<in> set is \<or> teMode (sbEntries s ! j) = ModeMixer \<and> teInput (sbEntries s ! j) \<noteq> None) \<longrightarrow>
        teMode (sbEntries (fold mixerEntry is s) ! j) = ModeMixer \<and>
        teInput (sbEntries (fold mixerEntry is s) ! j) \<noteq> None)"
  using assms
proof (induction "is" arbitrary: s)
  case (Cons i "is")
  have i: "i < length (sbEntries s)" using Cons.prems by simp
  note m = mixerEntry [OF i]
  have "\<forall>j \<in> set is. j < length (sbEntries (mixerEntry i s))"
    using Cons.prems sameShape_length [OF m(1)] by simp
  note ih = Cons.IH [OF this]
  show ?case
    using ih sameShape_trans [OF m(1)] m(4) unfolding m(3) by (auto split: option.splits if_splits)
qed simp

lemma passEntry:
  assumes "i < length (sbEntries s)"
  shows "sameShape s (passEntry i s)"
    and "sbEntries (passEntry i s) ! j = (if j = i then (sbEntries s ! i)\<lparr>teMode := ModePassthrough, teInput := None\<rparr>
         else sbEntries s ! j)"
    and "subInp s \<Longrightarrow> tracked s \<subseteq> {..<length (sbEntries s)} \<Longrightarrow> subInp (passEntry i s)"
proof -
  show sh: "sameShape s (passEntry i s)"
    using assms by (auto simp: passEntry_def removeInput_def updEntry_def sameShape_def map_cancelled_update split: option.split)
  show nth: "sbEntries (passEntry i s) ! j = (if j = i then (sbEntries s ! i)\<lparr>teMode := ModePassthrough, teInput := None\<rparr>
         else sbEntries s ! j)" for j
    using assms by (auto simp: passEntry_def removeInput_def updEntry_def nth_list_update split: option.splits)
  have inp: "inputOf (passEntry i s) = (inputOf s)(i := None)"
    by (auto simp: inputOf_def nth fun_eq_iff)
  have next_in: "sbNextInput (passEntry i s) = sbNextInput s"
    "sbInputs (passEntry i s) = filter (\<lambda>k. Some k \<noteq> teInput (sbEntries s ! i)) (sbInputs s)"
    by (auto simp: passEntry_def removeInput_def updEntry_def split: option.split)
  show "subInp (passEntry i s)" if "subInp s" "tracked s \<subseteq> {..<length (sbEntries s)}"
    using that assms sameShape_length [OF sh] sameShape_tracked [OF sh]
      inputsOK_remove [of "length (sbEntries s)" "tracked s" "inputOf s" "sbNextInput s" "set (sbInputs s)" i]
    unfolding subInp_def inp next_in by (simp add: inputOf_def)
qed

lemma fold_passEntry:
  assumes "\<forall>i \<in> set is. i < length (sbEntries s)" and "tracked s \<subseteq> {..<length (sbEntries s)}"
  shows "sameShape s (fold passEntry is s) \<and> (subInp s \<longrightarrow> subInp (fold passEntry is s)) \<and>
     (\<forall>j. (j \<in> set is \<or> teMode (sbEntries s ! j) = ModePassthrough \<and> teInput (sbEntries s ! j) = None) \<longrightarrow>
        teMode (sbEntries (fold passEntry is s) ! j) = ModePassthrough \<and>
        teInput (sbEntries (fold passEntry is s) ! j) = None)"
  using assms
proof (induction "is" arbitrary: s)
  case (Cons i "is")
  have i: "i < length (sbEntries s)" using Cons.prems by simp
  note m = passEntry [OF i]
  have "\<forall>j \<in> set is. j < length (sbEntries (passEntry i s))"
       "tracked (passEntry i s) \<subseteq> {..<length (sbEntries (passEntry i s))}"
    using Cons.prems sameShape_length [OF m(1)] sameShape_tracked [OF m(1)] by simp_all
  note ih = Cons.IH [OF this]
  show ?case
    using ih sameShape_trans [OF m(1)] m(3) Cons.prems(2) unfolding m(2) by (auto split: if_splits)
qed simp

lemma set_trackOrder: "set (trackOrder ord s) = tracked s"
  by (force simp: trackOrder_def tracked_def)

lemma subWF_tracked: "subWF s \<Longrightarrow> tracked s \<subseteq> {..<length (sbEntries s)}"
  by (auto simp: subWF_def)

lemma muted_irrelevant [simp]:
  "subWF (s\<lparr>sbMuted := b\<rparr>) = subWF s" "subInp (s\<lparr>sbMuted := b\<rparr>) = subInp s"
  "tracked (s\<lparr>sbMuted := b\<rparr>) = tracked s"
  by (simp_all add: subWF_def subInp_def tracked_def inputOf_def [abs_def])

lemma activateMixer_inv:
  assumes "subWF s" and "subInp s" and "2 \<le> glen (sbTracks s)"
  shows "subInv (activateMixerLocked ord s)"
proof -
  let ?f = "fold mixerEntry (trackOrder ord s) s"
  have "\<forall>i \<in> set (trackOrder ord s). i < length (sbEntries s)"
    using subWF_tracked [OF assms(1)] by (auto simp: set_trackOrder)
  note f = fold_mixerEntry [OF this, unfolded set_trackOrder]
  note sh = f [THEN conjunct1]
  have "subWF ?f" using sameShape_WF [OF sh assms(1)] .
  moreover have "sbTracks ?f = sbTracks s" "tracked ?f = tracked s"
    using sh sameShape_tracked [OF sh] by (simp_all add: sameShape_def)
  moreover have "subInp ?f" using f assms(2) by blast
  moreover have "teMode (sbEntries ?f ! j) = ModeMixer \<and> (\<exists>k. teInput (sbEntries ?f ! j) = Some k)"
    if "j \<in> tracked s" for j using f that by blast
  ultimately show ?thesis
    using assms(3) by (simp add: subInv_def subModes_def activateMixerLocked_def del: glen_eq_0)
qed

lemma activatePassthrough_inv:
  assumes "subWF s" and "subInp s" and "glen (sbTracks s) = 1"
  shows "subInv (activatePassthroughLocked ord s)"
proof -
  let ?f = "fold passEntry (trackOrder ord s) s"
  have "\<forall>i \<in> set (trackOrder ord s). i < length (sbEntries s)"
    using subWF_tracked [OF assms(1)] by (auto simp: set_trackOrder)
  note f = fold_passEntry [OF this subWF_tracked [OF assms(1)], unfolded set_trackOrder]
  note sh = f [THEN conjunct1]
  have "subWF ?f" using sameShape_WF [OF sh assms(1)] .
  moreover have "sbTracks ?f = sbTracks s" "tracked ?f = tracked s"
    using sh sameShape_tracked [OF sh] by (simp_all add: sameShape_def)
  moreover have "subInp ?f" using f assms(2) by blast
  moreover have "teMode (sbEntries ?f ! j) = ModePassthrough \<and> teInput (sbEntries ?f ! j) = None"
    if "j \<in> tracked s" for j using f that by blast
  ultimately show ?thesis
    using assms(3) by (simp add: subInv_def subModes_def activatePassthroughLocked_def)
qed

lemma glen_gput_pos: "0 < glen (gput k v m)"
  using glen_eq_0 [of "gput k v m"] by (metis gget_gput not_None_eq zero_less_iff_neq_zero option.distinct(1))

lemma glen_one:
  assumes "glen m = 1" and "gget m a \<noteq> None" and "gget m b \<noteq> None"
  shows "a = b"
  using assms by (metis (mono_tags, lifting) card_1_singletonE glen_card mem_Collect_eq singletonD)

lemma subscribed_inv:
  assumes "subInv s"
  shows "subInv (onTrackSubscribed ord ident isAudio sid s)"
proof -
  let ?i = "length (sbEntries s)"
  let ?s = "s\<lparr>sbEntries := sbEntries s @ [\<lparr>teMode = ModePassthrough, teInput = None, teCancelled = False\<rparr>],
              sbTracks := gput sid ?i (sbTracks s)\<rparr>"
  have i: "subWF s" "subInp s" using assms by (simp_all add: subInv_def)
  note t = subWF_tracked [OF i(1)]
  have tr: "tracked ?s \<subseteq> insert ?i (tracked s)" by (auto simp: tracked_def split: if_splits)
  have low: "gget (sbTracks s) a = Some j \<Longrightarrow> j < ?i" for a j
    using t by (auto simp: tracked_def)
  have wf: "subWF ?s"
    using i(1) tr t low unfolding subWF_def
    by (auto simp: nth_append tracked_def split: if_splits)
  have si: "subInp ?s"
    using inputsOK_extend [OF i(2) [unfolded subInp_def] t tr, of "inputOf ?s"]
    by (simp add: subInp_def inputOf_def nth_append)
  show ?thesis
  proof (cases "glen (sbTracks ?s) = 1")
    case True
    have only: "tracked ?s \<subseteq> {?i}"
      using glen_one [OF True, of sid] by (auto simp: tracked_def split: if_splits) metis
    have same: "updEntry ?i (\<lambda>e. e\<lparr>teMode := ModePassthrough\<rparr>) ?s = ?s"
      by (simp add: updEntry_def)
    have "subInv (?s\<lparr>sbMuted := True\<rparr>)"
      using wf si only True by (auto simp: subInv_def subModes_def)
    then show ?thesis using assms True same by (simp add: onTrackSubscribed_def Let_def)
  next
    case False
    then have "2 \<le> glen (sbTracks ?s)"
      using glen_gput_pos [of sid ?i "sbTracks s"] by simp
    then show ?thesis
      using activateMixer_inv [OF wf si] assms False by (simp add: onTrackSubscribed_def Let_def)
  qed
qed

lemma cancelEntry_Some:
  "cancelEntry i s = Some s' \<longleftrightarrow> \<not> teCancelled (sbEntries s ! i) \<and> s' = updEntry i (\<lambda>e. e\<lparr>teCancelled := True\<rparr>) s"
  by (auto simp: cancelEntry_def)

lemma glen_gdel_le: "glen (gdel k m) \<le> glen m"
proof -
  have "finite {k. gget m k \<noteq> None}" using set_gkeys [of m] by (metis List.finite_set)
  then show ?thesis by (auto simp: glen_card intro: card_mono)
qed

text \<open>Taking a track out of the map, before the modes are looked at again.\<close>

definition dropped :: "string \<Rightarrow> nat \<Rightarrow> subscriber \<Rightarrow> subscriber" where
  "dropped sid i s =
     s\<lparr>sbTracks := gdel sid (sbTracks s),
       sbInputs := filter (\<lambda>k. Some k \<noteq> inputOf s i) (sbInputs s),
       sbEntries := (sbEntries s)[i := (sbEntries s ! i)\<lparr>teCancelled := True, teInput := None\<rparr>]\<rparr>"

lemma dropped_inv:
  assumes "subWF s" and "subInp s" and "gget (sbTracks s) sid = Some i"
  shows "subWF (dropped sid i s)" and "subInp (dropped sid i s)"
    and "tracked (dropped sid i s) = tracked s - {i}"
proof -
  note t = subWF_tracked [OF assms(1)]
  have uniq: "gget (sbTracks s) a = Some i \<Longrightarrow> a = sid" for a
    using assms(1,3) by (auto simp: subWF_def)
  show tr: "tracked (dropped sid i s) = tracked s - {i}"
  proof (rule set_eqI)
    fix j
    show "j \<in> tracked (dropped sid i s) \<longleftrightarrow> j \<in> tracked s - {i}"
    proof (cases "j = i")
      case True
      then show ?thesis using uniq by (auto simp: tracked_def dropped_def)
    next
      case False
      then have "gget (sbTracks s) a = Some j \<Longrightarrow> a \<noteq> sid" for a using assms(3) by auto
      then have "(\<exists>a. a \<noteq> sid \<and> gget (sbTracks s) a = Some j) = (\<exists>a. gget (sbTracks s) a = Some j)" by blast
      then have "(\<exists>a. a \<noteq> sid \<and> (a \<noteq> sid \<longrightarrow> gget (sbTracks s) a = Some j)) = (\<exists>a. gget (sbTracks s) a = Some j)"
        by (simp cong: conj_cong)
      with False show ?thesis by (simp add: tracked_def dropped_def)
    qed
  qed
  have i: "i < length (sbEntries s)" using assms(3) t by (auto simp: tracked_def)
  show "subWF (dropped sid i s)"
    using assms(1) unfolding subWF_def tr by (auto simp: dropped_def)
  have "inputOf (dropped sid i s) = (inputOf s)(i := None)"
    using i by (auto simp: inputOf_def dropped_def fun_eq_iff nth_list_update)
  moreover have "inputsOK n (T - X) inp nx ins" if "inputsOK n T inp nx ins" for n T X inp nx ins
    using that by (auto simp: inputsOK_def)
  ultimately show "subInp (dropped sid i s)"
    using inputsOK_remove [OF assms(2) [unfolded subInp_def] i t]
    unfolding subInp_def tr by (simp add: dropped_def)
qed

lemma unsubscribed_found:
  assumes "subWF s" and "gget (sbTracks s) sid = Some i"
  shows "onTrackUnsubscribed ord sid s =
     (let s4 = dropped sid i s
      in Some (if glen (sbTracks s4) = 1 then activatePassthroughLocked ord s4
               else if glen (sbTracks s4) = 0 then s4\<lparr>sbMuted := True\<rparr> else s4))"
proof -
  have "i \<in> tracked s" using assms(2) by (auto simp: tracked_def)
  then have i: "i < length (sbEntries s)" "\<not> teCancelled (sbEntries s ! i)" using assms(1) by (auto simp: subWF_def)
  have filt: "filter (\<lambda>k. k \<noteq> x) xs = filter (\<lambda>k. Some k \<noteq> Some x) xs" for x and xs :: "nat list" by simp
  have "updEntry i (\<lambda>e. e\<lparr>teInput := None\<rparr>)
      (removeInput (teInput (sbEntries s' ! i)) s') = dropped sid i s"
    if "s' = updEntry i (\<lambda>e. e\<lparr>teCancelled := True\<rparr>) (s\<lparr>sbTracks := gdel sid (sbTracks s)\<rparr>)" for s'
    using i that by (auto simp: updEntry_def removeInput_def dropped_def inputOf_def split: option.split)
  then show ?thesis
    using assms(2) i(2) by (simp add: onTrackUnsubscribed_def Let_def cancelEntry_def del: glen_eq_0)
qed

lemma unsubscribed_inv:
  assumes "subInv s"
  shows "\<exists>s'. onTrackUnsubscribed ord sid s = Some s' \<and> subInv s'"
proof -
  have i: "subWF s" "subInp s" "subModes s" using assms by (simp_all add: subInv_def)
  show ?thesis
  proof (cases "gget (sbTracks s) sid")
    case None
    let ?s = "s\<lparr>sbTracks := gdel sid (sbTracks s)\<rparr>"
    have gd: "gget (gdel sid (sbTracks s)) = gget (sbTracks s)" using None by (auto simp: fun_eq_iff)
    then have same: "glen (gdel sid (sbTracks s)) = glen (sbTracks s)" by (simp add: glen_card)
    have "subWF ?s" "subInp ?s" "tracked ?s = tracked s"
      using i by (simp_all add: subWF_def subInp_def tracked_def gd inputOf_def [abs_def])
    moreover have "subModes (if glen (sbTracks ?s) = 0 then ?s\<lparr>sbMuted := True\<rparr> else ?s)"
      using i(3) by (simp add: subModes_def same tracked_def gd del: glen_eq_0)
    ultimately show ?thesis
      using None activatePassthrough_inv [of ?s ord]
      by (simp add: onTrackUnsubscribed_def subInv_def Let_def del: glen_eq_0 split: if_splits)
  next
    case (Some e)
    let ?d = "dropped sid e s"
    note d = dropped_inv [OF i(1,2) Some]
    have le: "glen (sbTracks ?d) \<le> glen (sbTracks s)"
      using glen_gdel_le [of sid "sbTracks s"] by (simp add: dropped_def)
    have keep: "sbMuted ?d = sbMuted s" "j \<noteq> e \<Longrightarrow> sbEntries ?d ! j = sbEntries s ! j" for j
      by (simp_all add: dropped_def)
    have "subModes ?d" if "2 \<le> glen (sbTracks ?d)"
      using i(3) that le by (auto simp: subModes_def d(3) keep simp del: glen_eq_0)
    moreover have "subModes (?d\<lparr>sbMuted := True\<rparr>)" if "glen (sbTracks ?d) = 0"
      using that by (simp add: subModes_def)
    ultimately show ?thesis
      using d activatePassthrough_inv [of ?d ord]
      unfolding unsubscribed_found [OF i(1) Some] Let_def
      by (simp add: subInv_def del: glen_eq_0)
  qed
qed

lemma closeEntries_ok:
  assumes "distinct is" and "\<forall>i \<in> set is. i < length (sbEntries s) \<and> \<not> teCancelled (sbEntries s ! i)"
  shows "\<exists>s'. closeEntries is s = Some s' \<and> map teInput (sbEntries s') = map teInput (sbEntries s) \<and>
     sbNextInput s' = sbNextInput s \<and> sbMuted s' = sbMuted s \<and>
     (\<forall>i \<in> set is. teCancelled (sbEntries s' ! i)) \<and>
     (\<forall>i. teCancelled (sbEntries s ! i) \<longrightarrow> teCancelled (sbEntries s' ! i))"
  using assms
proof (induction "is" arbitrary: s)
  case (Cons i "is")
  let ?s1 = "updEntry i (\<lambda>e. e\<lparr>teCancelled := True\<rparr>) s"
  let ?s2 = "removeInput (teInput (sbEntries ?s1 ! i)) ?s1"
  have i: "i < length (sbEntries s)" "\<not> teCancelled (sbEntries s ! i)" using Cons.prems(2) by simp_all
  have ents: "sbEntries ?s2 = (sbEntries s)[i := (sbEntries s ! i)\<lparr>teCancelled := True\<rparr>]"
    "sbNextInput ?s2 = sbNextInput s" "sbMuted ?s2 = sbMuted s"
    by (simp_all add: removeInput_def updEntry_def split: option.split)
  have step: "closeEntries (i # is) s = closeEntries is ?s2" using i(2) by (simp add: cancelEntry_def)
  have inp: "map teInput (sbEntries ?s2) = map teInput (sbEntries s)"
    using i(1) by (simp add: ents map_update list_update_same_conv)
  have "distinct is" "\<forall>j \<in> set is. j < length (sbEntries ?s2) \<and> \<not> teCancelled (sbEntries ?s2 ! j)"
    using Cons.prems unfolding ents by (auto simp: nth_list_update)
  from Cons.IH [OF this] obtain s' where s': "closeEntries is ?s2 = Some s'"
      "map teInput (sbEntries s') = map teInput (sbEntries ?s2)" "sbNextInput s' = sbNextInput ?s2"
      "sbMuted s' = sbMuted ?s2" "\<forall>i \<in> set is. teCancelled (sbEntries s' ! i)"
      "\<forall>j. teCancelled (sbEntries ?s2 ! j) \<longrightarrow> teCancelled (sbEntries s' ! j)"
    by blast
  have "teCancelled (sbEntries ?s2 ! i)" "teCancelled (sbEntries s ! j) \<longrightarrow> teCancelled (sbEntries ?s2 ! j)" for j
    using i(1) by (simp_all add: ents nth_list_update)
  then have "\<forall>j \<in> set (i # is). teCancelled (sbEntries s' ! j)"
      "\<forall>j. teCancelled (sbEntries s ! j) \<longrightarrow> teCancelled (sbEntries s' ! j)"
    using s'(5,6) by auto
  then show ?case using s'(1-4) inp unfolding step ents(2,3) by (intro exI [of _ s']) simp
qed simp

lemma distinct_trackOrder: "subWF s \<Longrightarrow> distinct (trackOrder ord s)"
  by (auto simp: trackOrder_def distinct_map subWF_def inj_on_def)

lemma closed_ok:
  assumes "subInv s"
  obtains s' where "CloseSubscriber ord (s, h) = Some (s', h @ Lk MixerStop #
       (case sbRoom s of None \<Rightarrow> [] | Some r \<Rightarrow> [Lk (LkDisconnect r)]))"
    "subInv s'" "sbTracks s' = []" "\<forall>i \<in> tracked s. teCancelled (sbEntries s' ! i)"
proof -
  have i: "subWF s" "subInp s" using assms by (simp_all add: subInv_def)
  have "\<forall>i \<in> set (trackOrder ord s). i < length (sbEntries s) \<and> \<not> teCancelled (sbEntries s ! i)"
    using i(1) by (auto simp: set_trackOrder subWF_def)
  from closeEntries_ok [OF distinct_trackOrder [OF i(1)] this] obtain s1 where
    s1: "closeEntries (trackOrder ord s) s = Some s1" "map teInput (sbEntries s1) = map teInput (sbEntries s)"
      "sbNextInput s1 = sbNextInput s" "\<forall>i \<in> tracked s. teCancelled (sbEntries s1 ! i)"
    unfolding set_trackOrder by blast
  let ?s = "s1\<lparr>sbTracks := [], sbStopped := True\<rparr>"
  have len: "length (sbEntries s1) = length (sbEntries s)" using s1(2) by (metis length_map)
  have inp: "inputOf s1 j = inputOf s j" if "j < length (sbEntries s)" for j
    using s1(2) len that unfolding inputOf_def by (metis nth_map)
  have tr: "tracked ?s = {}" by (simp add: tracked_def)
  have "subInp ?s"
    using i(2) inp unfolding subInp_def tr by (simp add: inputsOK_def inputOf_def s1(3) len)
  then have "subInv ?s"
    using tr by (simp add: subInv_def subWF_def subModes_def)
  with s1 show ?thesis
    by (intro that [of ?s]) (simp_all add: CloseSubscriber_def)
qed

lemma subStep_inv:
  "(\<exists>s. o' = Some s \<and> subInv s) \<Longrightarrow> \<exists>s. subStep ev o' = Some s \<and> subInv s"
proof (elim exE conjE)
  fix s assume s: "o' = Some s" "subInv s"
  show ?thesis
  proof (cases ev)
    case (SubscribedEv ord ident isAudio sid)
    then show ?thesis using s subscribed_inv by simp
  next
    case (UnsubscribedEv ord sid)
    then show ?thesis using s unsubscribed_inv by simp
  next
    case (CloseSubEv ord)
    obtain s' where "CloseSubscriber ord (s, []) = Some (s', [] @ Lk MixerStop #
        (case sbRoom s of None \<Rightarrow> [] | Some r \<Rightarrow> [Lk (LkDisconnect r)]))" "subInv s'"
      by (rule closed_ok [OF s(2)])
    then show ?thesis by (simp add: CloseSubEv s(1))
  qed
qed

interpretation subscriber_machine: event_machine subStep "\<lambda>o'. \<exists>s. o' = Some s \<and> subInv s"
  by unfold_locales (rule subStep_inv)

lemma NewSubscriber_inv: "NewSubscriber env config h = (Inr s, h1) \<Longrightarrow> subInv s"
  by (auto simp: NewSubscriber_def subInv_def subWF_def subModes_def subInp_def inputsOK_def tracked_def
      split: sum.splits option.splits prod.splits)

text \<open>
  C31: A subscriber never panics by closing a channel twice, and in every state it reaches, however tracks
  come and go: one track alone is passed through with the mixer muted, and with more than one every
  track is in mixer mode with an input that the mixer knows and no other entry has.
\<close>

theorem sub_modes:
  "case NewSubscriber env config h of
     (Inl e, h1) \<Rightarrow> True
   | (Inr s0, h1) \<Rightarrow>
       (\<exists>s. fold subStep evs (Some s0) = Some s \<and> subModes s \<and>
          inj_on (inputOf s) {i. i < length (sbEntries s) \<and> inputOf s i \<noteq> None} \<and>
          inputOf s ` tracked s - {None} \<subseteq> Some ` set (sbInputs s))"
proof (cases "NewSubscriber env config h")
  case (Pair r h1)
  show ?thesis
  proof (cases r)
    case (Inr s0)
    have "subInv s0" using Pair Inr by (simp add: NewSubscriber_inv)
    then have "\<exists>s. fold subStep evs (Some s0) = Some s \<and> subInv s"
      by (intro subscriber_machine.run_inv) simp
    then obtain s where s: "fold subStep evs (Some s0) = Some s" "subModes s" "subInp s"
      by (auto simp: subInv_def)
    from s(3) have "inj_on (inputOf s) {i. i < length (sbEntries s) \<and> inputOf s i \<noteq> None}"
      "inputOf s ` tracked s - {None} \<subseteq> Some ` set (sbInputs s)"
      by (auto simp: subInp_def inputsOK_def inj_on_def image_iff) (metis option.exhaust)
    with s show ?thesis by (simp add: Pair Inr)
  qed (simp add: Pair)
qed

text \<open>
  A packet takes one way only: of a live entry it is either handed to Discord as it is, or decoded
  and downmixed into the entry's own mixer input, by the entry's mode; a cancelled entry's goroutine ends,
  and tracks of the bridge's own participants and video tracks are never entered.
\<close>

theorem sub_packet_one_way:
  "trackRound dec (Inr (b # bs)) e =
     (if teCancelled e then TrackEnds
      else case (teMode e, teInput e) of
        (ModePassthrough, _) \<Rightarrow> TrackPasses (b # bs)
      | (ModeMixer, Some k) \<Rightarrow>
          (case dec (b # bs) of Inl _ \<Rightarrow> TrackSkips | Inr stereo \<Rightarrow> TrackMixes k (map downmix stereo))
      | (ModeMixer, None) \<Rightarrow> TrackSkips) \<and>
   onTrackSubscribed ord (''@discord_'' @ x) isAudio sid s = s \<and>
   onTrackSubscribed ord (''discord:'' @ x) isAudio sid s = s \<and>
   onTrackSubscribed ord ident False sid s = s"
  by (cases "teMode e") (auto simp: trackRound_def onTrackSubscribed_def bridgeIdentity_def hasPrefix_def split: option.split)

text \<open>
  When the handler fails, the output keeps the frame: the rest of that sample is dropped, and the next
  sample, whatever it is, first encodes and delivers the old frame a second time.
\<close>

theorem sub_handler_error:
  assumes "length fr = 960"
  shows "case WriteSample (\<lambda>_. Inr p) (\<lambda>ds. if ds = [p] then Some e else None) (fr @ rest)
      (freshOutput, \<lparr>ooEncoded = [], ooDelivered = []\<rparr>) of (r, out, t) \<Rightarrow>
     r = Some e \<and> ooEncoded t = [stereoFrame fr] \<and> ooDelivered t = [p] \<and>
     (case WriteSample (\<lambda>_. Inr p) (\<lambda>ds. if ds = [p] then Some e else None) [x] (out, t) of (r2, out2, t2) \<Rightarrow>
        r2 = None \<and> ooEncoded t2 = [stereoFrame fr, stereoFrame fr] \<and> ooDelivered t2 = [p, p] \<and>
        take (ooPos out2) (ooMono out2) = [x])"
proof -
  let ?enc = "\<lambda>_. Inr p" and ?hnd = "\<lambda>ds. if ds = [p] then Some e else None"
  let ?o = "freshOutput\<lparr>ooMono := fr, ooPos := 960\<rparr>"
  let ?t = "\<lparr>ooEncoded = [stereoFrame fr], ooDelivered = [p]\<rparr>"
  have wf: "ooWF freshOutput" "ooPos freshOutput < 960" "fr @ rest \<noteq> []"
    using assms by (auto simp: ooWF_def freshOutput_def)
  have "filled (fr @ rest) freshOutput = ?o"
    using assms by (simp add: filled_def freshOutput_def)
  moreover have um: "\<not> ooMuted freshOutput" by (simp add: freshOutput_def)
  moreover have "ooPos ?o = 960" "ooMono ?o = fr" "ooPos freshOutput = 0"
    by (simp_all add: freshOutput_def)
  ultimately have first: "WriteSample ?enc ?hnd (fr @ rest) (freshOutput, \<lparr>ooEncoded = [], ooDelivered = []\<rparr>) = (Some e, ?o, ?t)"
    by (simp add: WriteSample_def writeLoop_progress [OF wf] Let_def)
  have wf2: "ooWF (?o\<lparr>ooPos := 0\<rparr>)" "ooPos (?o\<lparr>ooPos := 0\<rparr>) < 960"
    using assms by (simp_all add: ooWF_def)
  let ?o2 = "filled [x] (?o\<lparr>ooPos := 0\<rparr>)"
  have two: "writeLoop ?enc ?hnd [x] (?o, ?t) =
      writeLoop ?enc ?hnd [x] (?o\<lparr>ooPos := 0\<rparr>, \<lparr>ooEncoded = [stereoFrame fr, stereoFrame fr], ooDelivered = [p, p]\<rparr>)"
    using assms by (subst writeLoop.simps) (simp add: Let_def)
  have "writeLoop ?enc ?hnd [x] (?o\<lparr>ooPos := 0\<rparr>, t) = (None, ?o2, t)" for t
    by (subst writeLoop_progress [OF wf2]) (simp_all add: Let_def filled_def writeLoop.simps [of _ _ "[]"])
  moreover have "take (ooPos ?o2) (ooMono ?o2) = [x]" by (simp add: filled_def)
  ultimately show ?thesis
    unfolding first using um by (simp add: WriteSample_def two)
qed

theorem sub_handler_error_witness:
  "\<exists>out t. WriteSample (\<lambda>_. Inr [7]) (\<lambda>ds. if ds = [[7]] then Some ''gone'' else None) (replicate 960 0 @ [5])
     (freshOutput, \<lparr>ooEncoded = [], ooDelivered = []\<rparr>) = (Some ''gone'', out, t)"
proof -
  have "length (replicate 960 (0 :: i16)) = 960" by simp
  from sub_handler_error [OF this, where p = "[7]" and e = "''gone''" and rest = "[5]" and x = 0] show ?thesis
    by (auto split: prod.splits)
qed

end
