(* ===== verification/Sidecar.thy ===== *)
theory Sidecar
  imports World
begin

text \<open>
  The rest of \<^verbatim>\<open>pkg/ipc/protocol.go\<close>: the Unix socket a sidecar connects to, and the start of the
  sidecar process. A listener, a connection and a process are named by the position in the history of
  the call that made them.
\<close>

record server =
  svListener :: nat
  svPath :: string

text \<open>The mode 0600 is 384.\<close>

definition NewServer :: "env \<Rightarrow> string \<Rightarrow> history \<Rightarrow> (goerror + server) \<times> history" where
  "NewServer env socketPath h =
     (let (_, h1) = callErr env (Proc (SockRemove socketPath)) h in
      case callErr env (Proc (SockListen socketPath)) h1 of
        (Some e, h2) \<Rightarrow> (Inl (wrapErr ''listen'' e), h2)
      | (None, h2) \<Rightarrow>
          (case callErr env (Proc (SockChmod socketPath 384)) h2 of
             (Some e, h3) \<Rightarrow> (Inl (wrapErr ''chmod socket'' e), h3 @ [Proc (SockClose socketPath)])
           | (None, h3) \<Rightarrow> (Inr \<lparr>svListener = length h1, svPath = socketPath\<rparr>, h3)))"

text \<open>\<open>timeout\<close> in seconds; the connection is the position of the call that accepted it.\<close>

definition Accept :: "env \<Rightarrow> nat \<Rightarrow> server \<Rightarrow> history \<Rightarrow> (goerror + nat) \<times> history" where
  "Accept env timeout s h =
     (case callErr env (Proc (SockAccept (svPath s) timeout)) h of
        (Some e, h1) \<Rightarrow> (Inl (wrapErr ''accept'' e), h1)
      | (None, h1) \<Rightarrow> (Inr (length h), h1))"

definition CloseServer :: "env \<Rightarrow> server \<Rightarrow> history \<Rightarrow> goerror option \<times> history" where
  "CloseServer env s h =
     (let (err, h1) = callErr env (Proc (SockClose (svPath s))) h;
          (_, h2) = callErr env (Proc (SockRemove (svPath s))) h1
      in (err, h2))"

text \<open>The variables a sidecar gets on top of the bridge's own environment.\<close>

definition sidecarEnv :: "string \<Rightarrow> string \<Rightarrow> string \<Rightarrow> string \<Rightarrow> bool \<Rightarrow> nat \<Rightarrow> string list" where
  "sidecarEnv socketPath token guildID logLevel primary slotIndex =
     [''IPC_SOCKET_PATH='' @ socketPath,
      ''DISCORD_BOT_TOKEN='' @ token,
      ''DISCORD_GUILD_ID='' @ guildID,
      ''SIDECAR_LOG_LEVEL='' @ logLevel,
      ''SIDECAR_SLOT='' @ formatNat slotIndex]
     @ (if primary then [''SIDECAR_PRIMARY=true''] else [])"

definition StartSidecar ::
  "env \<Rightarrow> string \<Rightarrow> string \<Rightarrow> string \<Rightarrow> string \<Rightarrow> string \<Rightarrow> bool \<Rightarrow> nat \<Rightarrow> history \<Rightarrow> (goerror + nat) \<times> history" where
  "StartSidecar env sidecarDir socketPath token guildID logLevel primary slotIndex h =
     (case callErr env (Proc (ProcStart sidecarDir
              (sidecarEnv socketPath token guildID logLevel primary slotIndex))) h of
        (Some e, h1) \<Rightarrow> (Inl (wrapErr ''start sidecar'' e), h1)
      | (None, h1) \<Rightarrow> (Inr (length h), h1))"

text \<open>How the display form of a token is made: the first ten bytes of a longer one.\<close>

definition maskToken :: "string \<Rightarrow> string" where
  "maskToken token = (if length token > 10 then take 10 token @ ''...'' else token)"

end
