(* ===== verification/BridgeState.thy ===== *)
theory BridgeState
  imports Store Signaller Subscriber Sidecar "HOL-Library.Monad_Syntax"
begin

text \<open>
  The state of \<^verbatim>\<open>pkg/bridge/manager.go\<close> and its critical sections: everything the code does while it holds
  \<^verbatim>\<open>m.mu\<close>. The handlers (\<open>Bridge\<close>) compose them with the calls made outside the lock, and the theory of
  interleavings reuses them as atomic steps. Slot indices are natural numbers.
\<close>

section \<open>State\<close>

definition bridgeProtocolID :: string where "bridgeProtocolID = ''discord-voice''"

record channelInfo =
  ciName :: string
  ciCategory :: u64

definition noInfo :: channelInfo where "noInfo = \<lparr>ciName = '''', ciCategory = 0\<rparr>"

text \<open>\<open>slConn\<close> names the connection to the sidecar, \<open>None\<close> is a nil \<^verbatim>\<open>Conn\<close>.\<close>

record slot =
  slConn :: "nat option"
  slIndex :: nat
  slPrimary :: bool
  slToken :: string
  slBotDBID :: int
  slChannel :: u64

text \<open>The two special values of a slot's channel: free and dead.\<close>

definition freeCh :: u64 where "freeCh = 0"
definition deadCh :: u64 where "deadCh = - 1"

text \<open>A channel bridge; the LiveKit manager and the subscriber are missing in the sentinel.\<close>

record chanBridge =
  cbChannel :: u64
  cbInfo :: channelInfo
  cbRoom :: string
  cbLK :: "lkRun option"
  cbSub :: "subscriber option"
  cbSlot :: nat
  cbJoined :: "(u64, bool) gomap"

record sidecarCfg =
  scfDir :: string
  scfSocketBase :: string
  scfLogLevel :: string

text \<open>
  The manager. The last five fields stand for what the Go runtime keeps: whether the callback for a new
  slot is set, the slots whose read loop it has started, the armed timers with their channels and the number
  of the next timer, and the goroutines started by \<^verbatim>\<open>go m.stopBridgeForChannel\<close> that have not run yet.
\<close>

record manager =
  mgSlots :: "slot list"
  mgSignaller :: "signaller option"
  mgStore :: "database option"
  mgLkConfig :: lkConfig
  mgSidecarCfg :: sidecarCfg
  mgGuildID :: string
  mgServerName :: string
  mgLkJWTSvc :: string
  mgVoiceStates :: "(u64, u64) gomap"
  mgChannelInfos :: "(u64, channelInfo) gomap"
  mgChannelRooms :: "(u64, string) gomap"
  mgActive :: "(u64, chanBridge) gomap"
  mgGuildSpace :: string
  mgCategorySpaces :: "(u64, string) gomap"
  mgRoomChannels :: "(string, u64) gomap"
  mgMatrixUsers :: "(u64, (string, string) gomap) gomap"
  mgStopTimers :: "(u64, nat) gomap"
  mgOnReady :: bool
  mgReadLoops :: "nat list"
  mgArmed :: "(nat \<times> u64) list"
  mgNextTimer :: nat
  mgStopping :: "u64 list"

type_synonym mst = "manager \<times> history"

definition NewManager ::
  "slot list \<Rightarrow> signaller option \<Rightarrow> database option \<Rightarrow> lkConfig \<Rightarrow> string \<Rightarrow> string \<Rightarrow> string \<Rightarrow> manager" where
  "NewManager slots sg db lk guildID serverName lkJWTSvc = \<lparr>
     mgSlots = slots, mgSignaller = sg, mgStore = db, mgLkConfig = lk,
     mgSidecarCfg = \<lparr>scfDir = '''', scfSocketBase = '''', scfLogLevel = ''''\<rparr>,
     mgGuildID = guildID, mgServerName = serverName, mgLkJWTSvc = lkJWTSvc,
     mgVoiceStates = [], mgChannelInfos = [], mgChannelRooms = [], mgActive = [], mgGuildSpace = '''',
     mgCategorySpaces = [], mgRoomChannels = [], mgMatrixUsers = [], mgStopTimers = [],
     mgOnReady = False, mgReadLoops = [], mgArmed = [], mgNextTimer = 0, mgStopping = []\<rparr>"

definition SetSidecarConfig :: "sidecarCfg \<Rightarrow> manager \<Rightarrow> manager" where
  "SetSidecarConfig cfg m = m\<lparr>mgSidecarCfg := cfg, mgOnReady := True\<rparr>"

definition setSlotChannel :: "nat \<Rightarrow> u64 \<Rightarrow> manager \<Rightarrow> manager" where
  "setSlotChannel i ch m = m\<lparr>mgSlots := (mgSlots m)[i := (mgSlots m ! i)\<lparr>slChannel := ch\<rparr>]\<rparr>"

text \<open>A write to a slot's sidecar; the error is only logged. A nil connection panics.\<close>

definition slotWrite :: "slot \<Rightarrow> message \<Rightarrow> history \<Rightarrow> history option" where
  "slotWrite s msg h = (case slConn s of None \<Rightarrow> None | Some c \<Rightarrow> Some (h @ [IpcWrite c msg]))"

section \<open>Critical sections\<close>

text \<open>The first free slot.\<close>

definition freeSlot :: "slot list \<Rightarrow> nat option" where
  "freeSlot ss = List.find (\<lambda>i. slChannel (ss ! i) = freeCh) [0..<length ss]"

text \<open>
  \<^verbatim>\<open>startBridge\<close> up to its first unlock: claim the slot and put the sentinel into the map. Without a room
  the slot is given back.
\<close>

definition claimSlot :: "u64 \<Rightarrow> manager \<Rightarrow> (nat \<times> string \<times> channelInfo) option \<times> manager" where
  "claimSlot ch m =
     (if gget (mgActive m) ch \<noteq> None then (None, m)
      else case freeSlot (mgSlots m) of
        None \<Rightarrow> (None, m)
      | Some i \<Rightarrow>
          let m1 = setSlotChannel i ch m;
              room = ggetz '''' (mgChannelRooms m1) ch;
              info = ggetz noInfo (mgChannelInfos m1) ch
          in if room = '''' then (None, setSlotChannel i freeCh m1)
             else (Some (i, room, info),
                   m1\<lparr>mgActive := gput ch \<lparr>cbChannel = ch, cbInfo = noInfo, cbRoom = '''', cbLK = None,
                     cbSub = None, cbSlot = i, cbJoined = []\<rparr> (mgActive m1)\<rparr>))"

definition installBridge :: "u64 \<Rightarrow> chanBridge \<Rightarrow> manager \<Rightarrow> manager" where
  "installBridge ch b m = m\<lparr>mgActive := gput ch b (mgActive m)\<rparr>"

text \<open>
  \<^verbatim>\<open>stopBridgeForChannel\<close> up to its unlock: take the bridge out of the map and free its slot unless it is
  dead.
\<close>

definition stopTake :: "u64 \<Rightarrow> manager \<Rightarrow> (chanBridge \<times> slot option) option \<times> manager" where
  "stopTake ch m =
     (case gget (mgActive m) ch of
        None \<Rightarrow> (None, m)
      | Some b \<Rightarrow>
          let m1 = m\<lparr>mgActive := gdel ch (mgActive m)\<rparr>; i = cbSlot b in
          if i < length (mgSlots m1)
          then let m2 = (if slChannel (mgSlots m1 ! i) \<noteq> deadCh then setSlotChannel i freeCh m1 else m1)
               in (Some (b, Some (mgSlots m2 ! i)), m2)
          else (Some (b, None), m1))"

text \<open>Cancelling the pending stop of a channel.\<close>

definition cancelTimer :: "u64 \<Rightarrow> mst \<Rightarrow> mst" where
  "cancelTimer ch s =
     (let (m, h) = s in
      case gget (mgStopTimers m) ch of
        None \<Rightarrow> (m, h)
      | Some t \<Rightarrow> (m\<lparr>mgStopTimers := gdel ch (mgStopTimers m), mgArmed := filter (\<lambda>a. fst a \<noteq> t) (mgArmed m)\<rparr>,
                   h @ [TimerStop t]))"

text \<open>\<^verbatim>\<open>bridgeForSlot\<close>: the first bridge of the map, in the order of iteration, that uses the slot.\<close>

definition activeBridgeList :: "nat list \<Rightarrow> manager \<Rightarrow> chanBridge list" where
  "activeBridgeList ord m = List.map_filter (gget (mgActive m)) (pick ord (gkeys (mgActive m)))"

definition bridgeForSlot :: "nat list \<Rightarrow> nat \<Rightarrow> manager \<Rightarrow> chanBridge option" where
  "bridgeForSlot ord i m = List.find (\<lambda>b. cbSlot b = i) (activeBridgeList ord m)"

text \<open>
  \<^verbatim>\<open>HandleSlotDeath\<close> under the lock: \<open>None\<close> when the slot was dead before, otherwise the channel whose bridge
  has to be stopped (0 for none).
\<close>

definition deathMark :: "env \<Rightarrow> int \<Rightarrow> mst \<Rightarrow> (u64 \<times> mst) option" where
  "deathMark env idx s =
     (let (m, h) = s; i = nat idx; inside = (0 \<le> idx \<and> i < length (mgSlots m)) in
      if inside \<and> slChannel (mgSlots m ! i) = deadCh then None
      else
        let channelToStop =
              (case List.find (\<lambda>ch. case gget (mgActive m) ch of None \<Rightarrow> False | Some b \<Rightarrow> int (cbSlot b) = idx)
                      (pick (rangeOrder env h) (gkeys (mgActive m))) of
                 None \<Rightarrow> 0
               | Some ch \<Rightarrow> ch);
            (m1, h1) = (if channelToStop \<noteq> 0 then cancelTimer channelToStop (m, h) else (m, h));
            m2 = (if inside then setSlotChannel i deadCh m1 else m1)
        in Some (channelToStop, (m2, h1)))"

section \<open>Queries\<close>

definition busySlot :: "slot \<Rightarrow> bool" where
  "busySlot s \<longleftrightarrow> slChannel s \<noteq> freeCh \<and> slChannel s \<noteq> deadCh"

definition Stats :: "manager \<Rightarrow> nat \<times> nat \<times> nat \<times> nat" where
  "Stats m = (glen (mgActive m), length (filter busySlot (mgSlots m)), length (mgSlots m), glen (mgVoiceStates m))"

record roomInfo =
  riName :: string
  riRoomID :: string

definition ListRooms :: "manager \<Rightarrow> (u64, roomInfo) gomap" where
  "ListRooms m = map (\<lambda>ch. (ch, \<lparr>riName = ciName (ggetz noInfo (mgChannelInfos m) ch),
     riRoomID = ggetz '''' (mgChannelRooms m) ch\<rparr>)) (gkeys (mgChannelRooms m))"

record slotInfo =
  siIndex :: nat
  siStatus :: string
  siChannelID :: u64
  siChannelName :: string
  siToken :: string

definition slotStatus :: "manager \<Rightarrow> nat \<Rightarrow> slotInfo" where
  "slotStatus m i =
     (let s = mgSlots m ! i; si = \<lparr>siIndex = i, siStatus = '''', siChannelID = 0, siChannelName = '''', siToken = slToken s\<rparr>
      in if slChannel s = deadCh then si\<lparr>siStatus := ''dead''\<rparr>
         else if slChannel s = freeCh then si\<lparr>siStatus := ''free''\<rparr>
         else si\<lparr>siStatus := ''busy'', siChannelID := slChannel s,
                 siChannelName := (case gget (mgChannelInfos m) (slChannel s) of None \<Rightarrow> '''' | Some info \<Rightarrow> ciName info)\<rparr>)"

definition ListSlots :: "manager \<Rightarrow> slotInfo list" where
  "ListSlots m = map (slotStatus m) [0..<length (mgSlots m)]"

end
