(* ===== verification/BridgeRooms.thy ===== *)
theory BridgeRooms
  imports BridgeState
begin

text \<open>
  The Matrix rooms of \<^verbatim>\<open>pkg/bridge/manager.go\<close>: creating the room of a channel, placing it in the Space
  hierarchy of mautrix-discord, finding rooms again after a restart. \<open>None\<close> is the panic of a nil signaller.
\<close>

section \<open>Links between channels and rooms\<close>

definition linkRoom :: "u64 \<Rightarrow> string \<Rightarrow> manager \<Rightarrow> manager" where
  "linkRoom ch room m = m\<lparr>mgChannelRooms := gput ch room (mgChannelRooms m),
     mgRoomChannels := gput room ch (mgRoomChannels m)\<rparr>"

text \<open>Writing a room to the database when there is one; an error is only logged.\<close>

definition persistRoom :: "env \<Rightarrow> Room \<Rightarrow> mst \<Rightarrow> mst" where
  "persistRoom env r s =
     (let (m, h) = s in
      case mgStore m of
        None \<Rightarrow> (m, h)
      | Some db \<Rightarrow> (case storeUpsertRoom env r (db, h) of (_, db1, h1) \<Rightarrow> (m\<lparr>mgStore := Some db1\<rparr>, h1)))"

definition bridgeKey :: "manager \<Rightarrow> string" where
  "bridgeKey m = ''fi.mau.discord://discord/'' @ mgGuildID m"

definition bridgePrefix :: "manager \<Rightarrow> string" where
  "bridgePrefix m = bridgeKey m @ ''/''"

text \<open>
  What an \<^verbatim>\<open>m.bridge\<close> event says about a channel: its id and display name, when the event is one of this
  bridge.
\<close>

definition bridgeEntry :: "string \<Rightarrow> string \<Rightarrow> json option \<Rightarrow> (u64 \<times> string) option" where
  "bridgeEntry pfx stateKey raw =
     (if \<not> hasPrefix stateKey pfx then None
      else case raw of
        None \<Rightarrow> None
      | Some r \<Rightarrow>
          (case jObj (jField r ''protocol'') of
             None \<Rightarrow> None
           | Some protocol \<Rightarrow>
               if jField protocol ''id'' \<noteq> Some (JStr bridgeProtocolID) then None
               else (case jObj (jField r ''channel'') of
                       None \<Rightarrow> None
                     | Some channel \<Rightarrow>
                         (case parseUint64 (jString (jField channel ''id'')) of
                            None \<Rightarrow> None
                          | Some chID \<Rightarrow> Some (chID, jString (jField channel ''displayname''))))))"

section \<open>Rebuilding the database\<close>

definition rebuildEntry :: "env \<Rightarrow> string \<Rightarrow> string \<times> json option \<Rightarrow> nat \<times> mst \<Rightarrow> nat \<times> mst" where
  "rebuildEntry env roomID kv s =
     (let (found, m, h) = s in
      case bridgeEntry (bridgePrefix m) (fst kv) (snd kv) of
        None \<Rightarrow> s
      | Some (chID, name) \<Rightarrow>
          (found + 1, persistRoom env \<lparr>rmDiscordChannel = chID, rmMatrixRoom = roomID, rmName = name,
             rmGuildID = mgGuildID m, rmCategoryID = 0\<rparr> (linkRoom chID roomID m, h)))"

definition rebuildRoom :: "env \<Rightarrow> signaller \<Rightarrow> string \<Rightarrow> nat \<times> mst \<Rightarrow> nat \<times> mst" where
  "rebuildRoom env sg roomID s =
     (let (found, m, h) = s; e = Hs (HsRoomState (botMXID sg) roomID); h1 = h @ [e] in
      case askState env h e of
        Inl _ \<Rightarrow> (found, m, h1)
      | Inr stateMap \<Rightarrow>
          (case map_of stateMap ''m.bridge'' of
             None \<Rightarrow> (found, m, h1)
           | Some bridges \<Rightarrow> fold (rebuildEntry env roomID) (pick (rangeOrder env h1) bridges) (found, m, h1)))"

definition RebuildDB :: "env \<Rightarrow> mst \<Rightarrow> ((goerror + nat) \<times> mst) option" where
  "RebuildDB env s =
     (let (m, h) = s in
      if mgStore m = None then Some (Inl ''no database configured'', m, h)
      else case mgSignaller m of
        None \<Rightarrow> None
      | Some sg \<Rightarrow>
          let e = Hs (HsJoinedRooms (botMXID sg)) in
          (case askRooms env h e of
             Inl err \<Rightarrow> Some (Inl (wrapErr ''list joined rooms'' err), m, h @ [e])
           | Inr rooms \<Rightarrow>
               (case fold (rebuildRoom env sg) rooms (0, m, h @ [e]) of
                  (found, m1, h1) \<Rightarrow> Some (Inr found, m1, h1))))"

section \<open>The Space hierarchy\<close>

definition discordBot :: "manager \<Rightarrow> string" where
  "discordBot m = ''@discordbot:'' @ mgServerName m"

text \<open>\<^verbatim>\<open>raw["type"] == "m.space"\<close>\<close>

definition isSpace :: "json \<Rightarrow> bool" where
  "isSpace content \<longleftrightarrow> jField content ''type'' = Some (JStr ''m.space'')"

text \<open>
  The scan of \<^verbatim>\<open>discoverGuildSpace\<close> over the rooms still to look at: the first Space with the guild's bridge
  event.
\<close>

fun findGuildSpace :: "env \<Rightarrow> string \<Rightarrow> string \<Rightarrow> string list \<Rightarrow> history \<Rightarrow> string option \<times> history" where
  "findGuildSpace env usr stateKey [] h = (None, h)"
| "findGuildSpace env usr stateKey (roomID # rooms) h =
     (let e1 = Hs (HsStateEvent usr roomID ''m.bridge'' stateKey); h1 = h @ [e1] in
      case askJson env h e1 of
        Inl _ \<Rightarrow> findGuildSpace env usr stateKey rooms h1
      | Inr _ \<Rightarrow>
          let e2 = Hs (HsStateEvent usr roomID ''m.room.create'' ''''); h2 = h1 @ [e2] in
          (case askJson env h1 e2 of
             Inl _ \<Rightarrow> findGuildSpace env usr stateKey rooms h2
           | Inr createContent \<Rightarrow>
               if isSpace createContent then (Some roomID, h2)
               else findGuildSpace env usr stateKey rooms h2))"

definition discoverGuildSpace :: "env \<Rightarrow> mst \<Rightarrow> ((goerror + string) \<times> mst) option" where
  "discoverGuildSpace env s =
     (let (m, h) = s in
      if mgGuildSpace m \<noteq> '''' then Some (Inr (mgGuildSpace m), m, h)
      else case mgSignaller m of
        None \<Rightarrow> None
      | Some sg \<Rightarrow>
          let usr = discordBot m; e = Hs (HsJoinedRooms usr); h1 = h @ [e] in
          (case askRooms env h e of
             Inl err \<Rightarrow> Some (Inl (wrapErr (''list joined rooms as '' @ usr) err), m, h1)
           | Inr rooms \<Rightarrow>
               (case findGuildSpace env usr (bridgeKey m) rooms h1 of
                  (Some roomID, h2) \<Rightarrow> Some (Inr roomID, m\<lparr>mgGuildSpace := roomID\<rparr>, h2)
                | (None, h2) \<Rightarrow> Some (Inl (''guild Space not found for guild '' @ mgGuildID m), m, h2))))"

text \<open>One child of the guild Space.\<close>

definition categoryKeys :: "string \<Rightarrow> string list \<Rightarrow> u64 list" where
  "categoryKeys pfx keys = List.map_filter
     (\<lambda>k. if hasPrefix k pfx then parseUint64 (trimPrefix k pfx) else None) keys"

definition categoryChild :: "env \<Rightarrow> string \<Rightarrow> string \<Rightarrow> mst \<Rightarrow> mst" where
  "categoryChild env usr child s =
     (let (m, h) = s; e = Hs (HsRoomState usr child); h1 = h @ [e] in
      case askState env h e of
        Inl _ \<Rightarrow> (m, h1)
      | Inr childState \<Rightarrow>
          (case Option.bind (map_of childState ''m.room.create'') (\<lambda>evs. map_of evs '''') of
             Some (Some raw) \<Rightarrow>
               if \<not> isSpace raw then (m, h1)
               else (case map_of childState ''m.bridge'' of
                       None \<Rightarrow> (m, h1)
                     | Some bridges \<Rightarrow>
                         (m\<lparr>mgCategorySpaces := fold (\<lambda>cat. gput cat child)
                              (categoryKeys (bridgePrefix m) (map fst (pick (rangeOrder env h1) bridges)))
                              (mgCategorySpaces m)\<rparr>, h1))
           | _ \<Rightarrow> (m, h1)))"

definition discoverCategorySpaces :: "env \<Rightarrow> mst \<Rightarrow> mst option" where
  "discoverCategorySpaces env s =
     (let (m, h) = s; gs = mgGuildSpace m in
      if gs = '''' then Some (m, h)
      else case mgSignaller m of
        None \<Rightarrow> None
      | Some sg \<Rightarrow>
          let usr = discordBot m; e = Hs (HsRoomState usr gs); h1 = h @ [e] in
          (case askState env h e of
             Inl _ \<Rightarrow> Some (m, h1)
           | Inr stateMap \<Rightarrow>
               (case map_of stateMap ''m.space.child'' of
                  None \<Rightarrow> Some (m, h1)
                | Some children \<Rightarrow>
                    Some (fold (categoryChild env usr) (map fst (pick (rangeOrder env h1) children)) (m, h1)))))"

definition viaServer :: "manager \<Rightarrow> json" where
  "viaServer m = JObj [(''via'', JArr [JStr (mgServerName m)])]"

definition addToGuildSpace :: "env \<Rightarrow> string \<Rightarrow> u64 \<Rightarrow> mst \<Rightarrow> mst option" where
  "addToGuildSpace env roomID categoryID s = do {
     (r, m, h) \<leftarrow> discoverGuildSpace env s;
     (case r of
        Inl _ \<Rightarrow> Some (m, h)
      | Inr guildSpace \<Rightarrow> do {
          (m1, h1) \<leftarrow> (if glen (mgCategorySpaces m) = 0 then discoverCategorySpaces env (m, h) else Some (m, h));
          (case mgSignaller m1 of
             None \<Rightarrow> None
           | Some sg \<Rightarrow>
               let target = (if categoryID \<noteq> 0
                             then (case gget (mgCategorySpaces m1) categoryID of Some c \<Rightarrow> c | None \<Rightarrow> guildSpace)
                             else guildSpace);
                   (err, h2) = callErr env
                     (Hs (HsSendState (discordBot m1) target ''m.space.child'' roomID (viaServer m1))) h1
               in if err \<noteq> None then Some (m1, h2)
                  else Some (m1, snd (callErr env
                     (Hs (HsSendState (botMXID sg) roomID ''m.space.parent'' target (viaServer m1))) h2)))
        })
   }"

section \<open>The room of a channel\<close>

definition bridgeContent :: "manager \<Rightarrow> u64 \<Rightarrow> channelInfo \<Rightarrow> json" where
  "bridgeContent m ch info =
     (let usr = JStr (''@discord_voice_bridge:'' @ mgServerName m)
      in JObj [
        (''bridgebot'', usr),
        (''creator'', usr),
        (''protocol'', JObj [(''id'', JStr bridgeProtocolID), (''displayname'', JStr ''Discord Voice''),
                              (''external_url'', JStr ''https://discord.com/'')]),
        (''channel'', JObj [(''id'', JStr (formatUint ch)), (''displayname'', JStr (ciName info))]),
        (''network'', JObj [(''id'', JStr (mgGuildID m))])])"

definition ensureMatrixRoom :: "env \<Rightarrow> u64 \<Rightarrow> channelInfo \<Rightarrow> mst \<Rightarrow> ((goerror + string) \<times> mst) option" where
  "ensureMatrixRoom env ch info s =
     (let (m, h) = s in
      case gget (mgChannelRooms m) ch of
        Some room \<Rightarrow> Some (Inr room, m, h)
      | None \<Rightarrow>
          (case mgSignaller m of
             None \<Rightarrow> None
           | Some sg \<Rightarrow>
               let usr = botMXID sg;
                   (_, h1) = callErr env (Hs (HsRegister usr)) h;
                   roomName = (if ciName info = '''' then ''Voice '' @ formatUint ch else ciName info)
               in (case callStr env (Hs (HsCreateRoom usr roomName (''Discord voice channel '' @ formatUint ch))) h1 of
                     (Inl e, h2) \<Rightarrow> Some (Inl (wrapErr ''create room'' e), m, h2)
                   | (Inr roomID, h2) \<Rightarrow> do {
                       let (m3, h3) = persistRoom env \<lparr>rmDiscordChannel = ch, rmMatrixRoom = roomID,
                             rmName = ciName info, rmGuildID = mgGuildID m, rmCategoryID = ciCategory info\<rparr>
                             (linkRoom ch roomID m, h2);
                       let key = bridgePrefix m @ formatUint ch;
                       let h4 = snd (callErr env (Hs (HsSendState usr roomID ''m.bridge'' key (bridgeContent m ch info))) h3);
                       let h5 = snd (callErr env
                             (Hs (HsSendState usr roomID ''uk.half-shot.bridge'' key (bridgeContent m ch info))) h4);
                       s6 \<leftarrow> addToGuildSpace env roomID (ciCategory info) (m3, h5);
                       Some (Inr roomID, s6)
                     })))"

section \<open>Rooms from earlier runs\<close>

text \<open>The rows of the database; a row without a name leaves the channel's metadata alone.\<close>

definition loadRoom :: "Room \<Rightarrow> manager \<Rightarrow> manager" where
  "loadRoom r m =
     (let m1 = linkRoom (rmDiscordChannel r) (rmMatrixRoom r) m
      in if rmName r \<noteq> ''''
         then m1\<lparr>mgChannelInfos := gput (rmDiscordChannel r) \<lparr>ciName = rmName r, ciCategory = rmCategoryID r\<rparr>
                (mgChannelInfos m1)\<rparr>
         else m1)"

text \<open>
  The parallel scan: the goroutines ask for the rooms' states in some order, and what they find arrives in
  some order.
\<close>

definition scanState ::
  "env \<Rightarrow> string \<Rightarrow> string \<Rightarrow> string \<Rightarrow> (u64 \<times> string) list \<times> history \<Rightarrow> (u64 \<times> string) list \<times> history" where
  "scanState env usr pfx roomID s =
     (let (found, h) = s; e = Hs (HsRoomState usr roomID); h1 = h @ [e] in
      case askState env h e of
        Inl _ \<Rightarrow> (found, h1)
      | Inr stateMap \<Rightarrow>
          (case map_of stateMap ''m.bridge'' of
             None \<Rightarrow> (found, h1)
           | Some bridges \<Rightarrow>
               (found @ List.map_filter
                  (\<lambda>kv. map_option (\<lambda>c. (fst c, roomID)) (bridgeEntry pfx (fst kv) (snd kv))) bridges, h1)))"

definition scanRooms :: "env \<Rightarrow> string \<Rightarrow> string \<Rightarrow> string list \<Rightarrow> history \<Rightarrow> (u64 \<times> string) list \<times> history" where
  "scanRooms env usr pfx rooms h = fold (scanState env usr pfx) (pick (rangeOrder env h) rooms) ([], h)"

definition discoverResult :: "env \<Rightarrow> u64 \<times> string \<Rightarrow> mst \<Rightarrow> mst" where
  "discoverResult env r s =
     (let (m, h) = s in
      persistRoom env \<lparr>rmDiscordChannel = fst r, rmMatrixRoom = snd r, rmName = '''', rmGuildID = mgGuildID m,
         rmCategoryID = 0\<rparr> (linkRoom (fst r) (snd r) m, h))"

definition DiscoverExistingRooms :: "env \<Rightarrow> mst \<Rightarrow> (goerror option \<times> mst) option" where
  "DiscoverExistingRooms env s =
     (let (m, h) = s in
      case mgSignaller m of
        None \<Rightarrow> None
      | Some sg \<Rightarrow>
          let usr = botMXID sg;
              (_, h1) = callErr env (Hs (HsRegister usr)) h;
              (stored, h2) = (case mgStore m of
                  None \<Rightarrow> ([], h1)
                | Some db \<Rightarrow> (case storeListRooms env (mgGuildID m) db h1 of
                                (Inl _, h2) \<Rightarrow> ([], h2) | (Inr rooms, h2) \<Rightarrow> (rooms, h2)))
          in if stored \<noteq> [] then Some (None, fold loadRoom stored m, h2)
             else
               let e = Hs (HsJoinedRooms usr); h3 = h2 @ [e] in
               (case askRooms env h2 e of
                  Inl err \<Rightarrow> Some (Some (wrapErr ''list joined rooms'' err), m, h3)
                | Inr rooms \<Rightarrow>
                    (case scanRooms env usr (bridgePrefix m) rooms h3 of
                       (found, h4) \<Rightarrow>
                         Some (None, fold (discoverResult env) (pick (rangeOrder env h4) found) (m, h4)))))"

end
