(* ===== verification/Bridge.thy ===== *)
theory Bridge
  imports BridgeRooms
begin

text \<open>
  The handlers of \<^verbatim>\<open>pkg/bridge/manager.go\<close>: bridges, presence, call events, timers, slots and IPC messages.
  Each is the whole handler, run without interruption; \<open>None\<close> is a run-time panic.
\<close>

section \<open>Starting and stopping a bridge\<close>

definition joinMsg :: "u64 \<Rightarrow> message" where
  "joinMsg ch = \<lparr>msgType = MsgJoinChannel, msgUserID = 0, msgPayload = putUint64 ch\<rparr>"

definition leaveMsg :: message where
  "leaveMsg = \<lparr>msgType = MsgLeaveChannel, msgUserID = 0, msgPayload = []\<rparr>"

definition shutdownMsg :: message where
  "shutdownMsg = \<lparr>msgType = MsgShutdown, msgUserID = 0, msgPayload = []\<rparr>"

text \<open>What the subscriber's frame handler writes to the slot's sidecar.\<close>

definition audioMsg :: "bytes \<Rightarrow> message" where
  "audioMsg frame = \<lparr>msgType = MsgAudioToDiscord, msgUserID = 0, msgPayload = frame\<rparr>"

definition roomLkConfig :: "manager \<Rightarrow> string \<Rightarrow> lkConfig" where
  "roomLkConfig m room = (mgLkConfig m)\<lparr>lkRoomName := LiveKitRoomAlias room\<rparr>"

text \<open>
  The connections of a new bridge. The identity function is the signaller's; with a nil signaller it would
  panic at the first participant, here it panics at once.
\<close>

definition connectBridge ::
  "env \<Rightarrow> manager \<Rightarrow> u64 \<Rightarrow> nat \<Rightarrow> string \<Rightarrow> channelInfo \<Rightarrow> history \<Rightarrow> (chanBridge \<times> history) option" where
  "connectBridge env m ch i room info h =
     (case mgSignaller m of
        None \<Rightarrow> None
      | Some sg \<Rightarrow>
          let cfg = roomLkConfig m room;
              (sub, h1) = NewSubscriber env cfg h
          in Some (\<lparr>cbChannel = ch, cbInfo = info, cbRoom = room,
                    cbLK = Some (newRun (SetIdentityFunc (LiveKitIdentity sg) (NewLkManager cfg))),
                    cbSub = (case sub of Inl _ \<Rightarrow> None | Inr x \<Rightarrow> Some x),
                    cbSlot = i, cbJoined = []\<rparr>, h1))"

definition startBridge :: "env \<Rightarrow> u64 \<Rightarrow> mst \<Rightarrow> mst option" where
  "startBridge env ch s =
     (let (m, h) = s in
      case claimSlot ch m of
        (None, m1) \<Rightarrow> Some (m1, h)
      | (Some (i, room, info), m1) \<Rightarrow> do {
          h1 \<leftarrow> slotWrite (mgSlots m1 ! i) (joinMsg ch) h;
          (b, h2) \<leftarrow> connectBridge env m1 ch i room info h1;
          Some (installBridge ch b m1, h2)
        })"

text \<open>After the bridge is out of the map: tell the sidecar, close the subscriber, close the participants.\<close>

definition disconnectBridge :: "env \<Rightarrow> chanBridge \<times> slot option \<Rightarrow> history \<Rightarrow> history option" where
  "disconnectBridge env taken h =
     (let (b, sl) = taken;
          h1 = (case sl of None \<Rightarrow> h
                | Some x \<Rightarrow> (case slConn x of None \<Rightarrow> h | Some c \<Rightarrow> h @ [IpcWrite c leaveMsg]))
      in do {
        h2 \<leftarrow> (case cbSub b of None \<Rightarrow> Some h1
               | Some x \<Rightarrow> map_option snd (CloseSubscriber (rangeOrder env h1) (x, h1)));
        Some (case cbLK b of None \<Rightarrow> h2 | Some lr \<Rightarrow> snd (CloseLk env (lr, h2)))
      })"

definition stopBridgeForChannel :: "env \<Rightarrow> u64 \<Rightarrow> mst \<Rightarrow> mst option" where
  "stopBridgeForChannel env ch s =
     (let (m, h) = s in
      case stopTake ch m of
        (None, m1) \<Rightarrow> Some (m1, h)
      | (Some taken, m1) \<Rightarrow> map_option (Pair m1) (disconnectBridge env taken h))"

text \<open>\<^verbatim>\<open>Close\<close>: cancel the timers, stop every bridge, withdraw every presence.\<close>

definition CloseManager :: "env \<Rightarrow> mst \<Rightarrow> mst option" where
  "CloseManager env s =
     (let (m, h) = fold cancelTimer (pick (rangeOrder env (snd s)) (gkeys (mgStopTimers (fst s)))) s;
          channels = pick (rangeOrder env h) (gkeys (mgActive m))
      in do {
        (m1, h1) \<leftarrow> foldM (stopBridgeForChannel env) channels (m, h);
        Some (case mgSignaller m1 of
                None \<Rightarrow> (m1, h1)
              | Some sg \<Rightarrow> (case LeaveAll env (sg, h1) of (sg1, h2) \<Rightarrow> (m1\<lparr>mgSignaller := Some sg1\<rparr>, h2)))
      })"

section \<open>Presence\<close>

definition setVoiceState :: "u64 \<Rightarrow> u64 \<Rightarrow> manager \<Rightarrow> manager" where
  "setVoiceState uid ch m =
     m\<lparr>mgVoiceStates := (if ch = 0 then gdel uid (mgVoiceStates m) else gput uid ch (mgVoiceStates m))\<rparr>"

definition onVoiceState :: "env \<Rightarrow> u64 \<Rightarrow> u64 \<Rightarrow> mst \<Rightarrow> mst" where
  "onVoiceState env uid ch s =
     (let (m, h) = s; oldChannel = ggetz 0 (mgVoiceStates m) uid; m1 = setVoiceState uid ch m in
      case mgSignaller m1 of
        None \<Rightarrow> (m1, h)
      | Some sg \<Rightarrow>
          let (sg1, h1) = (if oldChannel \<noteq> 0 \<and> oldChannel \<noteq> ch then snd (LeaveCall env uid (sg, h)) else (sg, h));
              room = ggetz '''' (mgChannelRooms m1) ch;
              (sg2, h2) = (if ch \<noteq> 0 \<and> room \<noteq> '''' then snd (JoinCall env uid room (sg1, h1)) else (sg1, h1))
          in (m1\<lparr>mgSignaller := Some sg2\<rparr>, h2))"

section \<open>Matrix users\<close>

definition usersOf :: "manager \<Rightarrow> u64 \<Rightarrow> (string, string) gomap" where
  "usersOf m ch = ggetz [] (mgMatrixUsers m) ch"

text \<open>The user list for the sidecar: a count, then each name with its length; both lengths in 16 bits.\<close>

definition usersPayload :: "string list \<Rightarrow> bytes" where
  "usersPayload names = putUint16 (of_nat (length names)) @
     concat (map (\<lambda>n. putUint16 (of_nat (length n)) @ bytesOf n) names)"

definition usersMsg :: "string list \<Rightarrow> message" where
  "usersMsg names = \<lparr>msgType = MsgMatrixUsers, msgUserID = 0, msgPayload = usersPayload names\<rparr>"

definition pushMatrixUsers :: "env \<Rightarrow> u64 \<Rightarrow> mst \<Rightarrow> mst" where
  "pushMatrixUsers env ch s =
     (let (m, h) = s;
          users = usersOf m ch;
          names = List.map_filter (gget users) (pick (rangeOrder env h) (gkeys users))
      in case gget (mgActive m) ch of
           None \<Rightarrow> (m, h)
         | Some b \<Rightarrow>
             if cbSlot b < length (mgSlots m)
             then (case slConn (mgSlots m ! cbSlot b) of
                     None \<Rightarrow> (m, h)
                   | Some c \<Rightarrow> (m, h @ [IpcWrite c (usersMsg names)]))
             else (m, h))"

text \<open>
  A user joins a channel: taken out of the other channels one by one, whose pending stops are cancelled and
  whose bridges are to be stopped. A channel without users has no entry.
\<close>

definition setUsers :: "u64 \<Rightarrow> (string, string) gomap \<Rightarrow> manager \<Rightarrow> manager" where
  "setUsers ch users m =
     m\<lparr>mgMatrixUsers := (if glen users = 0 then gdel ch (mgMatrixUsers m) else gput ch users (mgMatrixUsers m))\<rparr>"

definition leaveOther :: "string \<Rightarrow> u64 \<Rightarrow> u64 \<Rightarrow> u64 list \<times> mst \<Rightarrow> u64 list \<times> mst" where
  "leaveOther user ch otherCh s =
     (let (toStop, m, h) = s; users = usersOf m otherCh in
      if otherCh = ch then s
      else if gget users user = None then s
      else
        (toStop @ [otherCh], cancelTimer otherCh (setUsers otherCh (gdel user users) m, h)))"

definition leaveOthers :: "env \<Rightarrow> string \<Rightarrow> u64 \<Rightarrow> mst \<Rightarrow> u64 list \<times> mst" where
  "leaveOthers env user ch s =
     fold (leaveOther user ch) (pick (rangeOrder env (snd s)) (gkeys (mgMatrixUsers (fst s)))) ([], s)"

definition addUser :: "u64 \<Rightarrow> string \<Rightarrow> string \<Rightarrow> manager \<Rightarrow> manager" where
  "addUser ch user name m = m\<lparr>mgMatrixUsers := gput ch (gput user name (usersOf m ch)) (mgMatrixUsers m)\<rparr>"

definition removeUser :: "u64 \<Rightarrow> string \<Rightarrow> manager \<Rightarrow> manager" where
  "removeUser ch user m =
     (case gget (mgMatrixUsers m) ch of
        None \<Rightarrow> m
      | Some users \<Rightarrow> setUsers ch (gdel user users) m)"

definition matrixJoin :: "env \<Rightarrow> u64 \<Rightarrow> string \<Rightarrow> mst \<Rightarrow> mst option" where
  "matrixJoin env ch user s =
     (let (channelsToStop, s1) = leaveOthers env user ch (cancelTimer ch s) in do {
        (m2, h2) \<leftarrow> foldM (stopBridgeForChannel env) channelsToStop s1;
        if gget (usersOf m2 ch) user \<noteq> None then Some (m2, h2)
        else do {
          let (name, h3) = (case mgSignaller m2 of
                              None \<Rightarrow> (user, h2)
                            | Some sg \<Rightarrow> GetDisplayName env sg user h2);
          s4 \<leftarrow> startBridge env ch (addUser ch user name m2, h3);
          Some (pushMatrixUsers env ch s4)
        }
      })"

text \<open>
  The last user of a channel has left: a pending stop is replaced by a new one, five seconds from now.
\<close>

definition armStop :: "u64 \<Rightarrow> mst \<Rightarrow> mst" where
  "armStop ch s =
     (let (m, h) = s;
          (armed, h1) = (case gget (mgStopTimers m) ch of
              None \<Rightarrow> (mgArmed m, h)
            | Some t \<Rightarrow> (filter (\<lambda>a. fst a \<noteq> t) (mgArmed m), h @ [TimerStop t]))
      in (m\<lparr>mgStopTimers := gput ch (mgNextTimer m) (mgStopTimers m), mgArmed := armed @ [(mgNextTimer m, ch)],
            mgNextTimer := Suc (mgNextTimer m)\<rparr>,
          h1 @ [TimerStart 5000 ch]))"

definition matrixLeave :: "env \<Rightarrow> u64 \<Rightarrow> string \<Rightarrow> mst \<Rightarrow> mst" where
  "matrixLeave env ch user s =
     (let m1 = removeUser ch user (fst s);
          noUsers = (glen (usersOf m1 ch) = 0);
          s2 = pushMatrixUsers env ch (m1, snd s)
      in if noUsers then armStop ch s2 else s2)"

definition OnMatrixCallMember :: "env \<Rightarrow> string \<Rightarrow> string \<Rightarrow> bool \<Rightarrow> mst \<Rightarrow> mst option" where
  "OnMatrixCallMember env roomID user joined s =
     (if hasPrefix user ''@discord_'' then Some s
      else case gget (mgRoomChannels (fst s)) roomID of
        None \<Rightarrow> Some s
      | Some ch \<Rightarrow> if joined then matrixJoin env ch user s else Some (matrixLeave env ch user s))"

text \<open>The callback of an armed timer.\<close>

definition timerCallback :: "u64 \<Rightarrow> manager \<Rightarrow> bool \<times> manager" where
  "timerCallback ch m = (glen (usersOf m ch) = 0, m\<lparr>mgStopTimers := gdel ch (mgStopTimers m)\<rparr>)"

definition timerFires :: "env \<Rightarrow> nat \<Rightarrow> mst \<Rightarrow> mst option" where
  "timerFires env t s =
     (let (m, h) = s in
      case map_of (mgArmed m) t of
        None \<Rightarrow> Some (m, h)
      | Some ch \<Rightarrow>
          (case timerCallback ch (m\<lparr>mgArmed := filter (\<lambda>a. fst a \<noteq> t) (mgArmed m)\<rparr>) of
             (stillEmpty, m1) \<Rightarrow> if stillEmpty then stopBridgeForChannel env ch (m1, h) else Some (m1, h)))"

section \<open>Slots\<close>

definition HandleSlotDeath :: "env \<Rightarrow> int \<Rightarrow> mst \<Rightarrow> mst option" where
  "HandleSlotDeath env idx s =
     (case deathMark env idx s of
        None \<Rightarrow> Some s
      | Some (channelToStop, s1) \<Rightarrow>
          if channelToStop \<noteq> 0 then stopBridgeForChannel env channelToStop s1 else Some s1)"

definition addSlot :: "slot \<Rightarrow> manager \<Rightarrow> manager" where
  "addSlot sl m = m\<lparr>mgSlots := mgSlots m @ [sl]\<rparr>"

text \<open>
  Persisting a hot-added bot: the row's id goes into the slot object, which is the one in the list.
\<close>

definition persistBot :: "env \<Rightarrow> string \<Rightarrow> nat \<Rightarrow> mst \<Rightarrow> mst" where
  "persistBot env token i s =
     (let (m, h) = s in
      case mgStore m of
        None \<Rightarrow> (m, h)
      | Some db \<Rightarrow>
          (case storeAddBot env token (mgGuildID m) (db, h) of
             (Inl _, db1, h1) \<Rightarrow> (m\<lparr>mgStore := Some db1\<rparr>, h1)
           | (Inr dbID, db1, h1) \<Rightarrow>
               (m\<lparr>mgStore := Some db1, mgSlots := (mgSlots m)[i := (mgSlots m ! i)\<lparr>slBotDBID := dbID\<rparr>]\<rparr>, h1)))"

definition AddBot :: "env \<Rightarrow> string \<Rightarrow> mst \<Rightarrow> (goerror + nat) \<times> mst" where
  "AddBot env token s =
     (let (m, h) = s;
          slotIdx = length (mgSlots m);
          cfg = mgSidecarCfg m;
          socketPath = scfSocketBase cfg @ ''.'' @ formatNat slotIdx
      in case NewServer env socketPath h of
           (Inl e, h1) \<Rightarrow> (Inl (wrapErr ''create socket'' e), m, h1)
         | (Inr srv, h1) \<Rightarrow>
             (case StartSidecar env (scfDir cfg) socketPath token (mgGuildID m) (scfLogLevel cfg) False slotIdx h1 of
                (Inl e, h2) \<Rightarrow> (Inl (wrapErr ''start sidecar'' e), m, snd (CloseServer env srv h2))
              | (Inr cmd, h2) \<Rightarrow>
                  (case Accept env 30 srv h2 of
                     (Inl e, h3) \<Rightarrow>
                       (Inl (wrapErr ''sidecar connect'' e), m, snd (CloseServer env srv (h3 @ [Proc (ProcKill cmd)])))
                   | (Inr c, h3) \<Rightarrow>
                       let h4 = snd (CloseServer env srv h3);
                           sl = \<lparr>slConn = Some c, slIndex = slotIdx, slPrimary = False, slToken = maskToken token,
                                 slBotDBID = 0, slChannel = freeCh\<rparr>;
                           (m5, h5) = persistBot env token slotIdx (addSlot sl m, h4)
                       in (Inr slotIdx,
                           (if mgOnReady m5 then m5\<lparr>mgReadLoops := mgReadLoops m5 @ [slotIdx]\<rparr> else m5), h5))))"

definition RemoveBot :: "env \<Rightarrow> int \<Rightarrow> mst \<Rightarrow> (goerror option \<times> mst) option" where
  "RemoveBot env slotIdx s =
     (let (m, h) = s; i = nat slotIdx in
      if slotIdx < 0 \<or> int (length (mgSlots m)) \<le> slotIdx
      then Some (Some (''slot '' @ formatInt slotIdx @ '' does not exist''), m, h)
      else if slChannel (mgSlots m ! i) = deadCh
      then Some (Some (''slot '' @ formatInt slotIdx @ '' is already dead''), m, h)
      else do {
        let sl = mgSlots m ! i;
        let (m1, h1) = (case mgStore m of
            Some db \<Rightarrow>
              if slBotDBID sl > 0
              then (case storeRemoveBot env (slBotDBID sl) (db, h) of (_, db1, h1) \<Rightarrow> (m\<lparr>mgStore := Some db1\<rparr>, h1))
              else (m, h)
          | None \<Rightarrow> (m, h));
        (m2, h2) \<leftarrow> HandleSlotDeath env slotIdx (m1, h1);
        Some (None, m2, (case slConn sl of None \<Rightarrow> h2 | Some c \<Rightarrow> h2 @ [IpcWrite c shutdownMsg, IpcClose c]))
      })"

section \<open>Manual control\<close>

text \<open>The channel a name stands for: the first match in the order of iteration, compared case-insensitively.\<close>

definition channelByName :: "env \<Rightarrow> history \<Rightarrow> string \<Rightarrow> manager \<Rightarrow> u64" where
  "channelByName env h name m =
     (case List.find (\<lambda>ch. ucFold env (ciName (ggetz noInfo (mgChannelInfos m) ch)) = ucFold env name)
             (pick (rangeOrder env h) (gkeys (mgChannelInfos m))) of
        None \<Rightarrow> 0
      | Some ch \<Rightarrow> ch)"

definition notFound :: "env \<Rightarrow> string \<Rightarrow> goerror" where
  "notFound env name = ''channel '' @ fmtQuote env name @ '' not found''"

definition ManualJoin :: "env \<Rightarrow> string \<Rightarrow> mst \<Rightarrow> (goerror option \<times> mst) option" where
  "ManualJoin env name s =
     (let ch = channelByName env (snd s) name (fst s) in
      if ch = 0 then Some (Some (notFound env name), s)
      else map_option (Pair None) (startBridge env ch s))"

definition ManualLeave :: "env \<Rightarrow> string \<Rightarrow> mst \<Rightarrow> (goerror option \<times> mst) option" where
  "ManualLeave env name s =
     (if name = ''''
      then map_option (Pair None)
             (foldM (stopBridgeForChannel env) (pick (rangeOrder env (snd s)) (gkeys (mgActive (fst s)))) s)
      else
        let ch = channelByName env (snd s) name (fst s) in
        if ch = 0 then Some (Some (notFound env name), s)
        else map_option (Pair None) (stopBridgeForChannel env ch s))"

section \<open>IPC messages\<close>

definition strOf :: "bytes \<Rightarrow> string" where
  "strOf bs = map (\<lambda>b. char_of (unat b)) bs"

text \<open>
  The channel name behind the two length bytes at offset 16. The bounds check is done in \<^verbatim>\<open>int\<close>, but the
  slice bound \<^verbatim>\<open>18+nameLen\<close> is computed in \<^verbatim>\<open>uint16\<close>.
\<close>

definition channelMeta :: "bytes \<Rightarrow> channelInfo option" where
  "channelMeta p = do {
     category \<leftarrow> Option.bind (goslice p 8 16) leUint64;
     nameLen \<leftarrow> Option.bind (goslice p 16 18) leUint16;
     if length p \<ge> 18 + unat nameLen
     then map_option (\<lambda>n. \<lparr>ciName = strOf n, ciCategory = category\<rparr>) (goslice p 18 (unat (18 + nameLen)))
     else Some \<lparr>ciName = '''', ciCategory = category\<rparr>
   }"

definition voiceStatePayload :: "bytes \<Rightarrow> (u64 \<times> channelInfo) option" where
  "voiceStatePayload p = do {
     ch \<leftarrow> (if length p \<ge> 8 then leUint64 p else Some 0);
     info \<leftarrow> (if length p \<ge> 18 then channelMeta p else Some noInfo);
     Some (ch, info)
   }"

text \<open>Display name and avatar hash.\<close>

definition userInfoPayload :: "bytes \<Rightarrow> (string \<times> string) option" where
  "userInfoPayload p = do {
     nameLen \<leftarrow> Option.bind (goslice p 0 2) leUint16;
     displayName \<leftarrow> (if length p \<ge> 2 + unat nameLen
                     then map_option strOf (goslice p 2 (unat (2 + nameLen))) else Some '''');
     let offset = 2 + unat nameLen;
     avatarHash \<leftarrow> (if length p \<ge> offset + 2
       then do {
         avatarLen \<leftarrow> Option.bind (goslice p offset (offset + 2)) leUint16;
         if length p \<ge> offset + 2 + unat avatarLen
         then map_option strOf (goslice p (offset + 2) (offset + 2 + unat avatarLen)) else Some ''''
       }
       else Some '''');
     Some (displayName, avatarHash)
   }"

definition setInfo :: "u64 \<Rightarrow> channelInfo \<Rightarrow> manager \<Rightarrow> manager" where
  "setInfo ch info m = m\<lparr>mgChannelInfos := gput ch info (mgChannelInfos m)\<rparr>"

definition HandleMessage :: "env \<Rightarrow> nat \<Rightarrow> message \<Rightarrow> mst \<Rightarrow> (bool \<times> mst) option" where
  "HandleMessage env slotIdx msg s =
     (let (m, h) = s; p = msgPayload msg; b = bridgeForSlot (rangeOrder env h) slotIdx m in
      if msgType msg = MsgVoiceState then do {
        (ch, info) \<leftarrow> voiceStatePayload p;
        let m1 = (if ch \<noteq> 0 then setInfo ch info m else m);
        Some (True, onVoiceState env (msgUserID msg) ch (m1, h))
      }
      else if msgType msg = MsgChannelList then
        (if length p \<ge> 18 then do {
           ch \<leftarrow> leUint64 p;
           info \<leftarrow> channelMeta p;
           (r, s1) \<leftarrow> ensureMatrixRoom env ch info (setInfo ch info m, h);
           Some (True, s1)
         }
         else Some (True, s))
      else if msgType msg = MsgUserJoin then
        (case b of
           None \<Rightarrow> Some (True, s)
         | Some x \<Rightarrow> Some (True, installBridge (cbChannel x)
             (x\<lparr>cbJoined := gput (msgUserID msg) True (cbJoined x)\<rparr>) m, h))
      else if msgType msg = MsgUserInfo then
        (case mgSignaller m of
           None \<Rightarrow> Some (True, s)
         | Some sg \<Rightarrow>
             if length p \<ge> 2 then do {
               (displayName, avatarHash) \<leftarrow> userInfoPayload p;
               let (sg1, h1) = EnsureProfile env (msgUserID msg) displayName avatarHash (sg, h);
               Some (True, m\<lparr>mgSignaller := Some sg1\<rparr>, h1)
             }
             else Some (True, s))
      else if msgType msg = MsgLeaveChannel then
        (case b of
           None \<Rightarrow> Some (True, s)
         | Some x \<Rightarrow> Some (True, m\<lparr>mgStopping := mgStopping m @ [cbChannel x]\<rparr>, h))
      else if msgType msg = MsgAudioFromDiscord then
        (case b of
           None \<Rightarrow> Some (True, s)
         | Some x \<Rightarrow>
             (case cbLK x of
                None \<Rightarrow> Some (True, s)
              | Some lr \<Rightarrow>
                  (case WriteOpus env (msgUserID msg) p (lr, h) of
                     (_, lr1, h1) \<Rightarrow> Some (True, installBridge (cbChannel x) (x\<lparr>cbLK := Some lr1\<rparr>) m, h1))))
      else Some (False, s))"

end
