(* ===== verification/BridgeInv.thy ===== *)
theory BridgeInv
  imports Bridge
begin

text \<open>
  Runs of the bridge manager and its invariant: slots and bridges correspond, no user is in two channels,
  pending stops are armed timers of empty channels, presence follows the voice states, and nothing panics.
\<close>

section \<open>Events\<close>

text \<open>
  Everything that can call the manager: an IPC message of a slot, a call event of the sync loop, a timer, a
  goroutine started by \<^verbatim>\<open>MsgLeaveChannel\<close>, the end of a sidecar, an admin command, shutdown; and the
  LiveKit side of an active bridge moving on.
\<close>

datatype bridgeEvent =
    MsgEv nat message
  | MatrixEv string string bool
  | TimerEv nat
  | StoppingEv nat
  | DeathEv int
  | AddBotEv string
  | RemoveBotEv int
  | ManualJoinEv string
  | ManualLeaveEv string
  | RebuildEv
  | CloseManagerEv
  | LkSideEv u64 lkEvent
  | SubSideEv u64 subEvent

definition lkSide :: "env \<Rightarrow> u64 \<Rightarrow> lkEvent \<Rightarrow> mst \<Rightarrow> mst" where
  "lkSide env ch ev s =
     (let (m, h) = s in
      case gget (mgActive m) ch of
        None \<Rightarrow> s
      | Some b \<Rightarrow>
          (case cbLK b of
             None \<Rightarrow> s
           | Some lr \<Rightarrow> (case lkStep env ev (lr, h) of
                           (lr1, h1) \<Rightarrow> (installBridge ch (b\<lparr>cbLK := Some lr1\<rparr>) m, h1))))"

definition subSide :: "u64 \<Rightarrow> subEvent \<Rightarrow> mst \<Rightarrow> mst option" where
  "subSide ch ev s =
     (let (m, h) = s in
      case gget (mgActive m) ch of
        None \<Rightarrow> Some s
      | Some b \<Rightarrow>
          (case cbSub b of
             None \<Rightarrow> Some s
           | Some x \<Rightarrow> map_option (\<lambda>x1. (installBridge ch (b\<lparr>cbSub := Some x1\<rparr>) m, h)) (subStep ev (Some x))))"

definition runStopping :: "env \<Rightarrow> nat \<Rightarrow> mst \<Rightarrow> mst option" where
  "runStopping env i s =
     (let (m, h) = s in
      if i < length (mgStopping m)
      then stopBridgeForChannel env (mgStopping m ! i)
             (m\<lparr>mgStopping := take i (mgStopping m) @ drop (Suc i) (mgStopping m)\<rparr>, h)
      else Some s)"

fun bridgeStep :: "env \<Rightarrow> bridgeEvent \<Rightarrow> mst \<Rightarrow> mst option" where
  "bridgeStep env (MsgEv i msg) s = map_option snd (HandleMessage env i msg s)"
| "bridgeStep env (MatrixEv room user joined) s = OnMatrixCallMember env room user joined s"
| "bridgeStep env (TimerEv t) s = timerFires env t s"
| "bridgeStep env (StoppingEv i) s = runStopping env i s"
| "bridgeStep env (DeathEv idx) s = HandleSlotDeath env idx s"
| "bridgeStep env (AddBotEv token) s = Some (snd (AddBot env token s))"
| "bridgeStep env (RemoveBotEv idx) s = map_option snd (RemoveBot env idx s)"
| "bridgeStep env (ManualJoinEv name) s = map_option snd (ManualJoin env name s)"
| "bridgeStep env (ManualLeaveEv name) s = map_option snd (ManualLeave env name s)"
| "bridgeStep env RebuildEv s = map_option snd (RebuildDB env s)"
| "bridgeStep env CloseManagerEv s = CloseManager env s"
| "bridgeStep env (LkSideEv ch ev) s = Some (lkSide env ch ev s)"
| "bridgeStep env (SubSideEv ch ev) s = subSide ch ev s"

section \<open>The invariant\<close>

text \<open>What \<^verbatim>\<open>run\<close> builds: a signaller, and a connection in every slot.\<close>

definition wired :: "manager \<Rightarrow> bool" where
  "wired m \<longleftrightarrow> mgSignaller m \<noteq> None \<and> (\<forall>sl \<in> set (mgSlots m). slConn sl \<noteq> None)"

text \<open>Slots and bridges: a bridge is on the slot that carries its channel, a busy slot has its bridge.\<close>

definition bridgesOnSlots :: "manager \<Rightarrow> bool" where
  "bridgesOnSlots m \<longleftrightarrow>
     (\<forall>ch b. gget (mgActive m) ch = Some b \<longrightarrow>
        ch \<noteq> freeCh \<and> ch \<noteq> deadCh \<and> cbChannel b = ch \<and> cbSlot b < length (mgSlots m) \<and>
        slChannel (mgSlots m ! cbSlot b) = ch)"

definition slotsHaveBridges :: "manager \<Rightarrow> bool" where
  "slotsHaveBridges m \<longleftrightarrow>
     (\<forall>i < length (mgSlots m). busySlot (mgSlots m ! i) \<longrightarrow>
        (\<exists>b. gget (mgActive m) (slChannel (mgSlots m ! i)) = Some b \<and> cbSlot b = i))"

definition slotsOK :: "manager \<Rightarrow> bool" where
  "slotsOK m \<longleftrightarrow> bridgesOnSlots m \<and> slotsHaveBridges m \<and> map slIndex (mgSlots m) = [0..<length (mgSlots m)]"

text \<open>No room is known for the two channel numbers that mean free and dead.\<close>

definition roomsSane :: "manager \<Rightarrow> bool" where
  "roomsSane m \<longleftrightarrow> gget (mgChannelRooms m) freeCh = None \<and> gget (mgChannelRooms m) deadCh = None"

definition piecesOK :: "manager \<Rightarrow> bool" where
  "piecesOK m \<longleftrightarrow>
     (\<forall>ch b. gget (mgActive m) ch = Some b \<longrightarrow>
        (\<forall>lr. cbLK b = Some lr \<longrightarrow> lkInv lr) \<and> (\<forall>x. cbSub b = Some x \<longrightarrow> subInv x))"

text \<open>No user is in two channels, and no channel has an empty entry.\<close>

definition usersOK :: "manager \<Rightarrow> bool" where
  "usersOK m \<longleftrightarrow>
     (\<forall>u a b. gget (usersOf m a) u \<noteq> None \<and> gget (usersOf m b) u \<noteq> None \<longrightarrow> a = b) \<and>
     (\<forall>ch us. gget (mgMatrixUsers m) ch = Some us \<longrightarrow> glen us \<noteq> 0)"

text \<open>Pending stops are exactly the armed timers, each of a channel without users.\<close>

definition timersOK :: "manager \<Rightarrow> bool" where
  "timersOK m \<longleftrightarrow>
     (\<forall>t ch. (t, ch) \<in> set (mgArmed m) \<longleftrightarrow> gget (mgStopTimers m) ch = Some t) \<and>
     distinct (map fst (mgArmed m)) \<and> (\<forall>t \<in> set (map fst (mgArmed m)). t < mgNextTimer m) \<and>
     (\<forall>ch. gget (mgStopTimers m) ch \<noteq> None \<longrightarrow> glen (usersOf m ch) = 0)"

text \<open>A Discord user with a membership is in a voice channel.\<close>

definition presenceOK :: "manager \<Rightarrow> bool" where
  "presenceOK m \<longleftrightarrow>
     (\<forall>sg. mgSignaller m = Some sg \<longrightarrow>
        sgWF sg \<and> (\<forall>u. gget (sgActive sg) u \<noteq> None \<longrightarrow> ggetz 0 (mgVoiceStates m) u \<noteq> 0))"

text \<open>Slots known to be dead stay dead; \<open>D\<close> is the set of those seen so far.\<close>

definition deadOK :: "nat set \<Rightarrow> manager \<Rightarrow> bool" where
  "deadOK D m \<longleftrightarrow> (\<forall>i \<in> D. i < length (mgSlots m) \<and> slChannel (mgSlots m ! i) = deadCh)"

definition bridgeInv :: "nat set \<Rightarrow> manager \<Rightarrow> bool" where
  "bridgeInv D m \<longleftrightarrow> wired m \<and> slotsOK m \<and> roomsSane m \<and> piecesOK m \<and> usersOK m \<and> timersOK m \<and> presenceOK m \<and> deadOK D m"

section \<open>What an operation does not touch\<close>

lemma usersOf_frame [simp]:
  "usersOf (m\<lparr>mgSlots := x_mgSlots\<rparr>) = usersOf m"
  "usersOf (m\<lparr>mgSignaller := x_mgSignaller\<rparr>) = usersOf m"
  "usersOf (m\<lparr>mgStore := x_mgStore\<rparr>) = usersOf m"
  "usersOf (m\<lparr>mgVoiceStates := x_mgVoiceStates\<rparr>) = usersOf m"
  "usersOf (m\<lparr>mgChannelInfos := x_mgChannelInfos\<rparr>) = usersOf m"
  "usersOf (m\<lparr>mgChannelRooms := x_mgChannelRooms\<rparr>) = usersOf m"
  "usersOf (m\<lparr>mgActive := x_mgActive\<rparr>) = usersOf m"
  "usersOf (m\<lparr>mgGuildSpace := x_mgGuildSpace\<rparr>) = usersOf m"
  "usersOf (m\<lparr>mgCategorySpaces := x_mgCategorySpaces\<rparr>) = usersOf m"
  "usersOf (m\<lparr>mgRoomChannels := x_mgRoomChannels\<rparr>) = usersOf m"
  "usersOf (m\<lparr>mgStopTimers := x_mgStopTimers\<rparr>) = usersOf m"
  "usersOf (m\<lparr>mgOnReady := x_mgOnReady\<rparr>) = usersOf m"
  "usersOf (m\<lparr>mgReadLoops := x_mgReadLoops\<rparr>) = usersOf m"
  "usersOf (m\<lparr>mgArmed := x_mgArmed\<rparr>) = usersOf m"
  "usersOf (m\<lparr>mgNextTimer := x_mgNextTimer\<rparr>) = usersOf m"
  "usersOf (m\<lparr>mgStopping := x_mgStopping\<rparr>) = usersOf m"
  by (simp_all add: usersOf_def [abs_def])

lemma wired_frame [simp]:
  "wired (m\<lparr>mgStore := x_mgStore\<rparr>) = wired m"
  "wired (m\<lparr>mgVoiceStates := x_mgVoiceStates\<rparr>) = wired m"
  "wired (m\<lparr>mgChannelInfos := x_mgChannelInfos\<rparr>) = wired m"
  "wired (m\<lparr>mgChannelRooms := x_mgChannelRooms\<rparr>) = wired m"
  "wired (m\<lparr>mgActive := x_mgActive\<rparr>) = wired m"
  "wired (m\<lparr>mgGuildSpace := x_mgGuildSpace\<rparr>) = wired m"
  "wired (m\<lparr>mgCategorySpaces := x_mgCategorySpaces\<rparr>) = wired m"
  "wired (m\<lparr>mgRoomChannels := x_mgRoomChannels\<rparr>) = wired m"
  "wired (m\<lparr>mgMatrixUsers := x_mgMatrixUsers\<rparr>) = wired m"
  "wired (m\<lparr>mgStopTimers := x_mgStopTimers\<rparr>) = wired m"
  "wired (m\<lparr>mgOnReady := x_mgOnReady\<rparr>) = wired m"
  "wired (m\<lparr>mgReadLoops := x_mgReadLoops\<rparr>) = wired m"
  "wired (m\<lparr>mgArmed := x_mgArmed\<rparr>) = wired m"
  "wired (m\<lparr>mgNextTimer := x_mgNextTimer\<rparr>) = wired m"
  "wired (m\<lparr>mgStopping := x_mgStopping\<rparr>) = wired m"
  by (simp_all add: wired_def)

lemma bridgesOnSlots_frame [simp]:
  "bridgesOnSlots (m\<lparr>mgSignaller := x_mgSignaller\<rparr>) = bridgesOnSlots m"
  "bridgesOnSlots (m\<lparr>mgStore := x_mgStore\<rparr>) = bridgesOnSlots m"
  "bridgesOnSlots (m\<lparr>mgVoiceStates := x_mgVoiceStates\<rparr>) = bridgesOnSlots m"
  "bridgesOnSlots (m\<lparr>mgChannelInfos := x_mgChannelInfos\<rparr>) = bridgesOnSlots m"
  "bridgesOnSlots (m\<lparr>mgChannelRooms := x_mgChannelRooms\<rparr>) = bridgesOnSlots m"
  "bridgesOnSlots (m\<lparr>mgGuildSpace := x_mgGuildSpace\<rparr>) = bridgesOnSlots m"
  "bridgesOnSlots (m\<lparr>mgCategorySpaces := x_mgCategorySpaces\<rparr>) = bridgesOnSlots m"
  "bridgesOnSlots (m\<lparr>mgRoomChannels := x_mgRoomChannels\<rparr>) = bridgesOnSlots m"
  "bridgesOnSlots (m\<lparr>mgMatrixUsers := x_mgMatrixUsers\<rparr>) = bridgesOnSlots m"
  "bridgesOnSlots (m\<lparr>mgStopTimers := x_mgStopTimers\<rparr>) = bridgesOnSlots m"
  "bridgesOnSlots (m\<lparr>mgOnReady := x_mgOnReady\<rparr>) = bridgesOnSlots m"
  "bridgesOnSlots (m\<lparr>mgReadLoops := x_mgReadLoops\<rparr>) = bridgesOnSlots m"
  "bridgesOnSlots (m\<lparr>mgArmed := x_mgArmed\<rparr>) = bridgesOnSlots m"
  "bridgesOnSlots (m\<lparr>mgNextTimer := x_mgNextTimer\<rparr>) = bridgesOnSlots m"
  "bridgesOnSlots (m\<lparr>mgStopping := x_mgStopping\<rparr>) = bridgesOnSlots m"
  by (simp_all add: bridgesOnSlots_def)

lemma slotsHaveBridges_frame [simp]:
  "slotsHaveBridges (m\<lparr>mgSignaller := x_mgSignaller\<rparr>) = slotsHaveBridges m"
  "slotsHaveBridges (m\<lparr>mgStore := x_mgStore\<rparr>) = slotsHaveBridges m"
  "slotsHaveBridges (m\<lparr>mgVoiceStates := x_mgVoiceStates\<rparr>) = slotsHaveBridges m"
  "slotsHaveBridges (m\<lparr>mgChannelInfos := x_mgChannelInfos\<rparr>) = slotsHaveBridges m"
  "slotsHaveBridges (m\<lparr>mgChannelRooms := x_mgChannelRooms\<rparr>) = slotsHaveBridges m"
  "slotsHaveBridges (m\<lparr>mgGuildSpace := x_mgGuildSpace\<rparr>) = slotsHaveBridges m"
  "slotsHaveBridges (m\<lparr>mgCategorySpaces := x_mgCategorySpaces\<rparr>) = slotsHaveBridges m"
  "slotsHaveBridges (m\<lparr>mgRoomChannels := x_mgRoomChannels\<rparr>) = slotsHaveBridges m"
  "slotsHaveBridges (m\<lparr>mgMatrixUsers := x_mgMatrixUsers\<rparr>) = slotsHaveBridges m"
  "slotsHaveBridges (m\<lparr>mgStopTimers := x_mgStopTimers\<rparr>) = slotsHaveBridges m"
  "slotsHaveBridges (m\<lparr>mgOnReady := x_mgOnReady\<rparr>) = slotsHaveBridges m"
  "slotsHaveBridges (m\<lparr>mgReadLoops := x_mgReadLoops\<rparr>) = slotsHaveBridges m"
  "slotsHaveBridges (m\<lparr>mgArmed := x_mgArmed\<rparr>) = slotsHaveBridges m"
  "slotsHaveBridges (m\<lparr>mgNextTimer := x_mgNextTimer\<rparr>) = slotsHaveBridges m"
  "slotsHaveBridges (m\<lparr>mgStopping := x_mgStopping\<rparr>) = slotsHaveBridges m"
  by (simp_all add: slotsHaveBridges_def)

lemma slotsOK_frame [simp]:
  "slotsOK (m\<lparr>mgSignaller := x_mgSignaller\<rparr>) = slotsOK m"
  "slotsOK (m\<lparr>mgStore := x_mgStore\<rparr>) = slotsOK m"
  "slotsOK (m\<lparr>mgVoiceStates := x_mgVoiceStates\<rparr>) = slotsOK m"
  "slotsOK (m\<lparr>mgChannelInfos := x_mgChannelInfos\<rparr>) = slotsOK m"
  "slotsOK (m\<lparr>mgChannelRooms := x_mgChannelRooms\<rparr>) = slotsOK m"
  "slotsOK (m\<lparr>mgGuildSpace := x_mgGuildSpace\<rparr>) = slotsOK m"
  "slotsOK (m\<lparr>mgCategorySpaces := x_mgCategorySpaces\<rparr>) = slotsOK m"
  "slotsOK (m\<lparr>mgRoomChannels := x_mgRoomChannels\<rparr>) = slotsOK m"
  "slotsOK (m\<lparr>mgMatrixUsers := x_mgMatrixUsers\<rparr>) = slotsOK m"
  "slotsOK (m\<lparr>mgStopTimers := x_mgStopTimers\<rparr>) = slotsOK m"
  "slotsOK (m\<lparr>mgOnReady := x_mgOnReady\<rparr>) = slotsOK m"
  "slotsOK (m\<lparr>mgReadLoops := x_mgReadLoops\<rparr>) = slotsOK m"
  "slotsOK (m\<lparr>mgArmed := x_mgArmed\<rparr>) = slotsOK m"
  "slotsOK (m\<lparr>mgNextTimer := x_mgNextTimer\<rparr>) = slotsOK m"
  "slotsOK (m\<lparr>mgStopping := x_mgStopping\<rparr>) = slotsOK m"
  by (simp_all add: slotsOK_def)

lemma deadOK_frame [simp]:
  "deadOK D (m\<lparr>mgSignaller := x_mgSignaller\<rparr>) = deadOK D m"
  "deadOK D (m\<lparr>mgStore := x_mgStore\<rparr>) = deadOK D m"
  "deadOK D (m\<lparr>mgVoiceStates := x_mgVoiceStates\<rparr>) = deadOK D m"
  "deadOK D (m\<lparr>mgChannelInfos := x_mgChannelInfos\<rparr>) = deadOK D m"
  "deadOK D (m\<lparr>mgChannelRooms := x_mgChannelRooms\<rparr>) = deadOK D m"
  "deadOK D (m\<lparr>mgGuildSpace := x_mgGuildSpace\<rparr>) = deadOK D m"
  "deadOK D (m\<lparr>mgCategorySpaces := x_mgCategorySpaces\<rparr>) = deadOK D m"
  "deadOK D (m\<lparr>mgRoomChannels := x_mgRoomChannels\<rparr>) = deadOK D m"
  "deadOK D (m\<lparr>mgMatrixUsers := x_mgMatrixUsers\<rparr>) = deadOK D m"
  "deadOK D (m\<lparr>mgStopTimers := x_mgStopTimers\<rparr>) = deadOK D m"
  "deadOK D (m\<lparr>mgOnReady := x_mgOnReady\<rparr>) = deadOK D m"
  "deadOK D (m\<lparr>mgReadLoops := x_mgReadLoops\<rparr>) = deadOK D m"
  "deadOK D (m\<lparr>mgArmed := x_mgArmed\<rparr>) = deadOK D m"
  "deadOK D (m\<lparr>mgNextTimer := x_mgNextTimer\<rparr>) = deadOK D m"
  "deadOK D (m\<lparr>mgStopping := x_mgStopping\<rparr>) = deadOK D m"
  "deadOK D (m\<lparr>mgActive := x_mgActive\<rparr>) = deadOK D m"
  by (simp_all add: deadOK_def)

lemma roomsSane_frame [simp]:
  "roomsSane (m\<lparr>mgSlots := x_mgSlots\<rparr>) = roomsSane m"
  "roomsSane (m\<lparr>mgSignaller := x_mgSignaller\<rparr>) = roomsSane m"
  "roomsSane (m\<lparr>mgStore := x_mgStore\<rparr>) = roomsSane m"
  "roomsSane (m\<lparr>mgVoiceStates := x_mgVoiceStates\<rparr>) = roomsSane m"
  "roomsSane (m\<lparr>mgChannelInfos := x_mgChannelInfos\<rparr>) = roomsSane m"
  "roomsSane (m\<lparr>mgActive := x_mgActive\<rparr>) = roomsSane m"
  "roomsSane (m\<lparr>mgGuildSpace := x_mgGuildSpace\<rparr>) = roomsSane m"
  "roomsSane (m\<lparr>mgCategorySpaces := x_mgCategorySpaces\<rparr>) = roomsSane m"
  "roomsSane (m\<lparr>mgRoomChannels := x_mgRoomChannels\<rparr>) = roomsSane m"
  "roomsSane (m\<lparr>mgMatrixUsers := x_mgMatrixUsers\<rparr>) = roomsSane m"
  "roomsSane (m\<lparr>mgStopTimers := x_mgStopTimers\<rparr>) = roomsSane m"
  "roomsSane (m\<lparr>mgOnReady := x_mgOnReady\<rparr>) = roomsSane m"
  "roomsSane (m\<lparr>mgReadLoops := x_mgReadLoops\<rparr>) = roomsSane m"
  "roomsSane (m\<lparr>mgArmed := x_mgArmed\<rparr>) = roomsSane m"
  "roomsSane (m\<lparr>mgNextTimer := x_mgNextTimer\<rparr>) = roomsSane m"
  "roomsSane (m\<lparr>mgStopping := x_mgStopping\<rparr>) = roomsSane m"
  by (simp_all add: roomsSane_def)

lemma piecesOK_frame [simp]:
  "piecesOK (m\<lparr>mgSlots := x_mgSlots\<rparr>) = piecesOK m"
  "piecesOK (m\<lparr>mgSignaller := x_mgSignaller\<rparr>) = piecesOK m"
  "piecesOK (m\<lparr>mgStore := x_mgStore\<rparr>) = piecesOK m"
  "piecesOK (m\<lparr>mgVoiceStates := x_mgVoiceStates\<rparr>) = piecesOK m"
  "piecesOK (m\<lparr>mgChannelInfos := x_mgChannelInfos\<rparr>) = piecesOK m"
  "piecesOK (m\<lparr>mgChannelRooms := x_mgChannelRooms\<rparr>) = piecesOK m"
  "piecesOK (m\<lparr>mgGuildSpace := x_mgGuildSpace\<rparr>) = piecesOK m"
  "piecesOK (m\<lparr>mgCategorySpaces := x_mgCategorySpaces\<rparr>) = piecesOK m"
  "piecesOK (m\<lparr>mgRoomChannels := x_mgRoomChannels\<rparr>) = piecesOK m"
  "piecesOK (m\<lparr>mgMatrixUsers := x_mgMatrixUsers\<rparr>) = piecesOK m"
  "piecesOK (m\<lparr>mgStopTimers := x_mgStopTimers\<rparr>) = piecesOK m"
  "piecesOK (m\<lparr>mgOnReady := x_mgOnReady\<rparr>) = piecesOK m"
  "piecesOK (m\<lparr>mgReadLoops := x_mgReadLoops\<rparr>) = piecesOK m"
  "piecesOK (m\<lparr>mgArmed := x_mgArmed\<rparr>) = piecesOK m"
  "piecesOK (m\<lparr>mgNextTimer := x_mgNextTimer\<rparr>) = piecesOK m"
  "piecesOK (m\<lparr>mgStopping := x_mgStopping\<rparr>) = piecesOK m"
  by (simp_all add: piecesOK_def)

lemma usersOK_frame [simp]:
  "usersOK (m\<lparr>mgSlots := x_mgSlots\<rparr>) = usersOK m"
  "usersOK (m\<lparr>mgSignaller := x_mgSignaller\<rparr>) = usersOK m"
  "usersOK (m\<lparr>mgStore := x_mgStore\<rparr>) = usersOK m"
  "usersOK (m\<lparr>mgVoiceStates := x_mgVoiceStates\<rparr>) = usersOK m"
  "usersOK (m\<lparr>mgChannelInfos := x_mgChannelInfos\<rparr>) = usersOK m"
  "usersOK (m\<lparr>mgChannelRooms := x_mgChannelRooms\<rparr>) = usersOK m"
  "usersOK (m\<lparr>mgActive := x_mgActive\<rparr>) = usersOK m"
  "usersOK (m\<lparr>mgGuildSpace := x_mgGuildSpace\<rparr>) = usersOK m"
  "usersOK (m\<lparr>mgCategorySpaces := x_mgCategorySpaces\<rparr>) = usersOK m"
  "usersOK (m\<lparr>mgRoomChannels := x_mgRoomChannels\<rparr>) = usersOK m"
  "usersOK (m\<lparr>mgStopTimers := x_mgStopTimers\<rparr>) = usersOK m"
  "usersOK (m\<lparr>mgOnReady := x_mgOnReady\<rparr>) = usersOK m"
  "usersOK (m\<lparr>mgReadLoops := x_mgReadLoops\<rparr>) = usersOK m"
  "usersOK (m\<lparr>mgArmed := x_mgArmed\<rparr>) = usersOK m"
  "usersOK (m\<lparr>mgNextTimer := x_mgNextTimer\<rparr>) = usersOK m"
  "usersOK (m\<lparr>mgStopping := x_mgStopping\<rparr>) = usersOK m"
  by (simp_all add: usersOK_def)

lemma timersOK_frame [simp]:
  "timersOK (m\<lparr>mgSlots := x_mgSlots\<rparr>) = timersOK m"
  "timersOK (m\<lparr>mgSignaller := x_mgSignaller\<rparr>) = timersOK m"
  "timersOK (m\<lparr>mgStore := x_mgStore\<rparr>) = timersOK m"
  "timersOK (m\<lparr>mgVoiceStates := x_mgVoiceStates\<rparr>) = timersOK m"
  "timersOK (m\<lparr>mgChannelInfos := x_mgChannelInfos\<rparr>) = timersOK m"
  "timersOK (m\<lparr>mgChannelRooms := x_mgChannelRooms\<rparr>) = timersOK m"
  "timersOK (m\<lparr>mgActive := x_mgActive\<rparr>) = timersOK m"
  "timersOK (m\<lparr>mgGuildSpace := x_mgGuildSpace\<rparr>) = timersOK m"
  "timersOK (m\<lparr>mgCategorySpaces := x_mgCategorySpaces\<rparr>) = timersOK m"
  "timersOK (m\<lparr>mgRoomChannels := x_mgRoomChannels\<rparr>) = timersOK m"
  "timersOK (m\<lparr>mgOnReady := x_mgOnReady\<rparr>) = timersOK m"
  "timersOK (m\<lparr>mgReadLoops := x_mgReadLoops\<rparr>) = timersOK m"
  "timersOK (m\<lparr>mgStopping := x_mgStopping\<rparr>) = timersOK m"
  by (simp_all add: timersOK_def)

lemma presenceOK_frame [simp]:
  "presenceOK (m\<lparr>mgSlots := x_mgSlots\<rparr>) = presenceOK m"
  "presenceOK (m\<lparr>mgStore := x_mgStore\<rparr>) = presenceOK m"
  "presenceOK (m\<lparr>mgChannelInfos := x_mgChannelInfos\<rparr>) = presenceOK m"
  "presenceOK (m\<lparr>mgChannelRooms := x_mgChannelRooms\<rparr>) = presenceOK m"
  "presenceOK (m\<lparr>mgActive := x_mgActive\<rparr>) = presenceOK m"
  "presenceOK (m\<lparr>mgGuildSpace := x_mgGuildSpace\<rparr>) = presenceOK m"
  "presenceOK (m\<lparr>mgCategorySpaces := x_mgCategorySpaces\<rparr>) = presenceOK m"
  "presenceOK (m\<lparr>mgRoomChannels := x_mgRoomChannels\<rparr>) = presenceOK m"
  "presenceOK (m\<lparr>mgMatrixUsers := x_mgMatrixUsers\<rparr>) = presenceOK m"
  "presenceOK (m\<lparr>mgStopTimers := x_mgStopTimers\<rparr>) = presenceOK m"
  "presenceOK (m\<lparr>mgOnReady := x_mgOnReady\<rparr>) = presenceOK m"
  "presenceOK (m\<lparr>mgReadLoops := x_mgReadLoops\<rparr>) = presenceOK m"
  "presenceOK (m\<lparr>mgArmed := x_mgArmed\<rparr>) = presenceOK m"
  "presenceOK (m\<lparr>mgNextTimer := x_mgNextTimer\<rparr>) = presenceOK m"
  "presenceOK (m\<lparr>mgStopping := x_mgStopping\<rparr>) = presenceOK m"
  by (simp_all add: presenceOK_def)

section \<open>Slots and bridges\<close>

lemma free_not_dead [simp]: "freeCh \<noteq> deadCh" "deadCh \<noteq> freeCh"
  by (simp_all add: freeCh_def deadCh_def)

lemma setSlotChannel_simps [simp]:
  "mgActive (setSlotChannel i c m) = mgActive m"
  "length (mgSlots (setSlotChannel i c m)) = length (mgSlots m)"
  "map slIndex (mgSlots (setSlotChannel i c m)) = map slIndex (mgSlots m)"
  "mgChannelRooms (setSlotChannel i c m) = mgChannelRooms m"
  "mgChannelInfos (setSlotChannel i c m) = mgChannelInfos m"
  "wired (setSlotChannel i c m) = wired m"
  "piecesOK (setSlotChannel i c m) = piecesOK m" "usersOK (setSlotChannel i c m) = usersOK m"
  "timersOK (setSlotChannel i c m) = timersOK m" "presenceOK (setSlotChannel i c m) = presenceOK m"
  "roomsSane (setSlotChannel i c m) = roomsSane m"
proof -
  have "map g ((mgSlots m)[i := (mgSlots m ! i)\<lparr>slChannel := c\<rparr>]) = map g (mgSlots m)"
    if "\<And>s. g (s\<lparr>slChannel := c\<rparr>) = g s" for g :: "slot \<Rightarrow> 'a"
    using that by (simp add: map_update list_update_same_conv [of i "map g (mgSlots m)"] list_update_beyond
        flip: nth_map) (metis list_update_beyond list_update_id map_update not_le)
  note maps = this
  show "map slIndex (mgSlots (setSlotChannel i c m)) = map slIndex (mgSlots m)"
    by (simp add: setSlotChannel_def maps)
  have "slConn ` set (mgSlots (setSlotChannel i c m)) = slConn ` set (mgSlots m)"
    using maps [of slConn] by (simp add: setSlotChannel_def flip: set_map)
  moreover have "wired m' = (mgSignaller m' \<noteq> None \<and> None \<notin> slConn ` set (mgSlots m'))" for m'
    by (force simp: wired_def)
  moreover have "mgSignaller (setSlotChannel i c m) = mgSignaller m" by (simp add: setSlotChannel_def)
  ultimately show "wired (setSlotChannel i c m) = wired m" by simp
qed (simp_all add: setSlotChannel_def)

lemma slot_setSlotChannel:
  "i < length (mgSlots m) \<Longrightarrow> slChannel (mgSlots (setSlotChannel i c m) ! j) = (if j = i then c else slChannel (mgSlots m ! j))"
  by (simp add: setSlotChannel_def nth_list_update)

lemma deadOK_setSlotChannel:
  assumes "deadOK D m" and "i < length (mgSlots m)" and "c = deadCh \<or> slChannel (mgSlots m ! i) \<noteq> deadCh"
  shows "deadOK D (setSlotChannel i c m)"
  using assms by (auto simp: deadOK_def slot_setSlotChannel)

lemma freeSlot_Some: "freeSlot ss = Some i \<Longrightarrow> i < length ss \<and> slChannel (ss ! i) = freeCh"
  by (auto simp: freeSlot_def find_Some_iff)

lemma slotsOK_D:
  assumes "slotsOK m" and "gget (mgActive m) ch = Some b"
  shows "ch \<noteq> freeCh" "ch \<noteq> deadCh" "cbChannel b = ch" "cbSlot b < length (mgSlots m)"
    "slChannel (mgSlots m ! cbSlot b) = ch"
  using assms by (auto simp: slotsOK_def bridgesOnSlots_def)

lemma slotsOK_inj:
  "slotsOK m \<Longrightarrow> gget (mgActive m) ch = Some b \<Longrightarrow> gget (mgActive m) ch' = Some b' \<Longrightarrow> cbSlot b = cbSlot b' \<Longrightarrow> ch = ch'"
  by (metis slotsOK_D(5))

lemma slotsOK_busy:
  "slotsOK m \<Longrightarrow> i < length (mgSlots m) \<Longrightarrow> busySlot (mgSlots m ! i) \<Longrightarrow>
   \<exists>b. gget (mgActive m) (slChannel (mgSlots m ! i)) = Some b \<and> cbSlot b = i"
  by (simp add: slotsOK_def slotsHaveBridges_def)

text \<open>A claim takes the first free slot for a channel with a room, or changes nothing.\<close>

lemma claimSlot_cases:
  assumes "claimSlot ch m = (r, m1)"
  shows "r = None \<and> m1 = m \<or>
    (\<exists>i room info. r = Some (i, room, info) \<and> gget (mgActive m) ch = None \<and> freeSlot (mgSlots m) = Some i \<and>
       gget (mgChannelRooms m) ch = Some room \<and> room \<noteq> '''' \<and>
       m1 = installBridge ch \<lparr>cbChannel = ch, cbInfo = noInfo, cbRoom = '''', cbLK = None, cbSub = None,
              cbSlot = i, cbJoined = []\<rparr> (setSlotChannel i ch m))"
proof (cases "gget (mgActive m) ch = None \<and> freeSlot (mgSlots m) \<noteq> None")
  case False
  then show ?thesis using assms by (auto simp: claimSlot_def split: option.splits)
next
  case True
  then obtain i where i: "freeSlot (mgSlots m) = Some i" by blast
  have "setSlotChannel i freeCh (setSlotChannel i ch m) = m"
    using freeSlot_Some [OF i] by (simp add: setSlotChannel_def list_update_same_conv)
  then show ?thesis
    using assms True i
    by (auto simp: claimSlot_def installBridge_def Let_def ggetz_def split: if_splits option.splits)
qed

lemma installBridge_simps [simp]:
  "mgSlots (installBridge ch b m) = mgSlots m"
  "gget (mgActive (installBridge ch b m)) ch' = (if ch' = ch then Some b else gget (mgActive m) ch')"
  "wired (installBridge ch b m) = wired m" "usersOK (installBridge ch b m) = usersOK m"
  "timersOK (installBridge ch b m) = timersOK m" "presenceOK (installBridge ch b m) = presenceOK m"
  "roomsSane (installBridge ch b m) = roomsSane m" "deadOK D (installBridge ch b m) = deadOK D m"
  by (simp_all add: installBridge_def)

lemma slotsOK_install:
  assumes "slotsOK m" and "gget (mgActive m) ch = Some b0" and "cbChannel b = ch" and "cbSlot b = cbSlot b0"
  shows "slotsOK (installBridge ch b m)"
proof -
  note d = slotsOK_D [OF assms(1,2)]
  have "bridgesOnSlots (installBridge ch b m)"
    using slotsOK_D [OF assms(1)] d assms(3,4) by (simp add: bridgesOnSlots_def)
  moreover have "\<exists>b'. gget (mgActive (installBridge ch b m)) (slChannel (mgSlots m ! i)) = Some b' \<and> cbSlot b' = i"
    if i: "i < length (mgSlots m)" "busySlot (mgSlots m ! i)" for i
    using slotsOK_busy [OF assms(1) i] assms(2,4) by auto
  ultimately show ?thesis
    using assms(1) by (simp add: slotsOK_def slotsHaveBridges_def)
qed

lemma slotsOK_claim:
  assumes ok: "slotsOK m" and none: "gget (mgActive m) ch = None" and ch: "ch \<noteq> freeCh" "ch \<noteq> deadCh"
    and i: "freeSlot (mgSlots m) = Some i" and b: "cbChannel b = ch" "cbSlot b = i"
  shows "slotsOK (installBridge ch b (setSlotChannel i ch m))"
proof -
  note fr = freeSlot_Some [OF i]
  have other: "cbSlot b' \<noteq> i" if "gget (mgActive m) ch' = Some b'" for ch' b'
    using slotsOK_D [OF ok that] fr by auto
  have fresh: "slChannel (mgSlots m ! j) \<noteq> ch" if "j < length (mgSlots m)" for j
    using slotsOK_busy [OF ok that] none ch by (auto simp: busySlot_def)
  have "bridgesOnSlots (installBridge ch b (setSlotChannel i ch m))"
    using slotsOK_D [OF ok] other fr ch b by (auto simp: bridgesOnSlots_def slot_setSlotChannel)
  moreover have "slotsHaveBridges (installBridge ch b (setSlotChannel i ch m))"
    using slotsOK_busy [OF ok] fr b fresh by (auto simp: slotsHaveBridges_def slot_setSlotChannel busySlot_def)
  ultimately show ?thesis using ok by (simp add: slotsOK_def)
qed

text \<open>What stopping a channel does to slots and map when they correspond.\<close>

lemma stopTake_ok:
  assumes "slotsOK m" and "gget (mgActive m) ch = Some b"
  shows "stopTake ch m = (Some (b, Some (mgSlots (setSlotChannel (cbSlot b) freeCh m) ! cbSlot b)),
     (setSlotChannel (cbSlot b) freeCh m)\<lparr>mgActive := gdel ch (mgActive m)\<rparr>)"
  using slotsOK_D [OF assms] assms(2) by (simp add: stopTake_def setSlotChannel_def Let_def)

text \<open>Vacating the slot of a bridge, for reuse or for good.\<close>

lemma slotsOK_vacate:
  assumes "slotsOK m" and Some: "gget (mgActive m) ch = Some b" and x: "x = freeCh \<or> x = deadCh"
  shows "slotsOK ((setSlotChannel (cbSlot b) x m)\<lparr>mgActive := gdel ch (mgActive m)\<rparr>)" (is "slotsOK ?m")
proof -
  note d = slotsOK_D [OF assms(1) Some]
  have "bridgesOnSlots ?m"
    using slotsOK_D [OF assms(1)] slotsOK_inj [OF assms(1) Some] d(4)
    by (auto simp: bridgesOnSlots_def slot_setSlotChannel split: if_splits)
  moreover have "slotsHaveBridges ?m"
    unfolding slotsHaveBridges_def
  proof (intro allI impI)
    fix i assume i: "i < length (mgSlots ?m)" "busySlot (mgSlots ?m ! i)"
    have ne: "i \<noteq> cbSlot b" using i d(4) x by (auto simp: busySlot_def slot_setSlotChannel)
    then have ch: "slChannel (mgSlots ?m ! i) = slChannel (mgSlots m ! i)"
      using d(4) by (simp add: slot_setSlotChannel)
    obtain b' where "gget (mgActive m) (slChannel (mgSlots m ! i)) = Some b'" "cbSlot b' = i"
      using slotsOK_busy [OF assms(1), of i] i ch by (auto simp: busySlot_def)
    then show "\<exists>b'. gget (mgActive ?m) (slChannel (mgSlots ?m ! i)) = Some b' \<and> cbSlot b' = i"
      unfolding ch using ne Some by auto
  qed
  ultimately show ?thesis
    using assms(1) by (simp add: slotsOK_def)
qed

lemma slotsOK_stopTake:
  assumes "slotsOK m"
  shows "slotsOK (snd (stopTake ch m))"
proof (cases "gget (mgActive m) ch")
  case None
  then show ?thesis using assms by (simp add: stopTake_def)
next
  case (Some b)
  then show ?thesis
    using slotsOK_vacate [OF assms Some, of freeCh] by (simp add: stopTake_ok [OF assms])
qed

lemma slotsOK_retire:
  assumes "slotsOK m" and i: "i < length (mgSlots m)" "\<not> busySlot (mgSlots m ! i)"
  shows "slotsOK (setSlotChannel i deadCh m)"
proof -
  have "cbSlot b \<noteq> i" if "gget (mgActive m) ch = Some b" for ch b
    using slotsOK_D [OF assms(1) that] i by (auto simp: busySlot_def)
  then have "bridgesOnSlots (setSlotChannel i deadCh m)"
    using slotsOK_D [OF assms(1)] i(1) by (auto simp: bridgesOnSlots_def slot_setSlotChannel)
  moreover have "slotsHaveBridges (setSlotChannel i deadCh m)"
    using slotsOK_busy [OF assms(1)] i(1) by (auto simp: slotsHaveBridges_def slot_setSlotChannel busySlot_def)
  ultimately show ?thesis using assms(1) by (simp add: slotsOK_def)
qed

section \<open>Starting and stopping\<close>

text \<open>A stop never panics, and its effect on the manager is that of its critical section.\<close>

lemma disconnectBridge_goes:
  assumes "\<And>x. cbSub b = Some x \<Longrightarrow> subInv x"
  shows "disconnectBridge env (b, sl) h \<noteq> None"
proof (cases "cbSub b")
  case None
  then show ?thesis by (simp add: disconnectBridge_def Let_def)
next
  case (Some x)
  have "goes (\<lambda>_. True) (CloseSubscriber ord (x, h'))" for ord h'
    by (rule closed_ok [OF assms [OF Some], of ord h']) simp
  then have "goes (\<lambda>_. True) (disconnectBridge env (b, sl) h)"
    using Some by (simp add: disconnectBridge_def Let_def)
  then show ?thesis by (auto simp: goes_iff)
qed

lemma stopTake_fst: "stopTake ch m = (Some (b, sl), m1) \<Longrightarrow> gget (mgActive m) ch = Some b"
  by (auto simp: stopTake_def Let_def split: option.splits if_splits)

lemma piecesOK_D: "piecesOK m \<Longrightarrow> gget (mgActive m) ch = Some b \<Longrightarrow> cbSub b = Some x \<Longrightarrow> subInv x"
  by (simp add: piecesOK_def)

lemma stopBridge_spec:
  assumes "piecesOK m"
  shows "goes (\<lambda>(m', h'). m' = snd (stopTake ch m)) (stopBridgeForChannel env ch (m, h))"
proof (cases "stopTake ch m")
  case (Pair t m1)
  show ?thesis
  proof (cases t)
    case None
    then show ?thesis by (simp add: stopBridgeForChannel_def Pair)
  next
    case (Some taken)
    obtain b sl where taken: "taken = (b, sl)" by (cases taken)
    have "disconnectBridge env (b, sl) h \<noteq> None"
      using piecesOK_D [OF assms stopTake_fst] Pair Some taken by (intro disconnectBridge_goes) blast
    then show ?thesis by (auto simp: stopBridgeForChannel_def Pair Some taken)
  qed
qed

definition started :: "u64 \<Rightarrow> nat \<Rightarrow> manager \<Rightarrow> manager \<Rightarrow> bool" where
  "started ch i m m' \<longleftrightarrow> (\<exists>b. cbChannel b = ch \<and> cbSlot b = i \<and>
     (\<forall>lr. cbLK b = Some lr \<longrightarrow> lkInv lr) \<and> (\<forall>x. cbSub b = Some x \<longrightarrow> subInv x) \<and>
     cbRoom b = ggetz '''' (mgChannelRooms m) ch \<and> cbLK b \<noteq> None \<and>
     m' = installBridge ch b (setSlotChannel i ch m))"

lemma installBridge_twice [simp]: "installBridge ch b (installBridge ch b' m) = installBridge ch b m"
  by (simp add: installBridge_def gput_def update_last)

text \<open>A start either changes nothing or puts a connected bridge on the first free slot.\<close>

lemma startBridge_spec:
  assumes "wired m"
  shows "goes (\<lambda>(m', h'). if gget (mgActive m) ch = None \<and> ggetz '''' (mgChannelRooms m) ch \<noteq> ''''
       then (case freeSlot (mgSlots m) of None \<Rightarrow> m' = m | Some i \<Rightarrow> started ch i m m')
       else m' = m) (startBridge env ch (m, h))"
proof (cases "claimSlot ch m")
  case (Pair r m1)
  from claimSlot_cases [OF Pair] show ?thesis
  proof (elim disjE conjE exE)
    assume "r = None" "m1 = m"
    then have "\<not> (gget (mgActive m) ch = None \<and> ggetz '''' (mgChannelRooms m) ch \<noteq> '''') \<or> freeSlot (mgSlots m) = None"
      using Pair by (auto simp: claimSlot_def Let_def split: option.splits if_splits)
    then show ?thesis using \<open>r = None\<close> \<open>m1 = m\<close> by (auto simp: startBridge_def Pair split: option.splits)
  next
    fix i room info
    let ?b0 = "\<lparr>cbChannel = ch, cbInfo = noInfo, cbRoom = '''', cbLK = None, cbSub = None, cbSlot = i, cbJoined = []\<rparr>"
    assume c: "r = Some (i, room, info)" "gget (mgActive m) ch = None" "freeSlot (mgSlots m) = Some i"
      "gget (mgChannelRooms m) ch = Some room" "room \<noteq> ''''" "m1 = installBridge ch ?b0 (setSlotChannel i ch m)"
    have w1: "wired m1" using assms c(6) by simp
    obtain sg where sg: "mgSignaller m1 = Some sg" using w1 by (auto simp: wired_def)
    have "mgSlots m1 ! i \<in> set (mgSlots m1)"
      using freeSlot_Some [OF c(3)] c(6) by (intro nth_mem) simp
    then obtain cn where cn: "slConn (mgSlots m1 ! i) = Some cn" using w1 by (auto simp: wired_def)
    let ?h = "h @ [IpcWrite cn (joinMsg ch)]" and ?cfg = "roomLkConfig m1 room"
    obtain sub h2 where sub: "NewSubscriber env ?cfg ?h = (sub, h2)" by fastforce
    have "subInv x" if "sub = Inr x" for x using NewSubscriber_inv sub that by blast
    then have "started ch i m (installBridge ch b m1)"
      if "b = \<lparr>cbChannel = ch, cbInfo = info, cbRoom = room,
            cbLK = Some (newRun (SetIdentityFunc (LiveKitIdentity sg) (NewLkManager ?cfg))),
            cbSub = (case sub of Inl _ \<Rightarrow> None | Inr x \<Rightarrow> Some x), cbSlot = i, cbJoined = []\<rparr>" for b
      using c that lkInv_identity
      by (auto simp: started_def ggetz_def split: sum.splits intro!: exI [of _ b])
    then show ?thesis
      using c(1-5) by (simp add: startBridge_def Pair slotWrite_def cn connectBridge_def sg sub ggetz_def)
  qed
qed

lemma started_keeps:
  assumes "started ch i m m'" and "freeSlot (mgSlots m) = Some i"
  shows "deadOK D m \<Longrightarrow> deadOK D m'" and "wired m' = wired m" and "usersOK m' = usersOK m" and "timersOK m' = timersOK m"
    and "presenceOK m' = presenceOK m" and "roomsSane m' = roomsSane m"
    and "piecesOK m \<Longrightarrow> piecesOK m'"
    and "slotsOK m \<Longrightarrow> gget (mgActive m) ch = None \<Longrightarrow> ch \<noteq> freeCh \<Longrightarrow> ch \<noteq> deadCh \<Longrightarrow> slotsOK m'"
proof -
  obtain b where b: "cbChannel b = ch" "cbSlot b = i" "\<forall>lr. cbLK b = Some lr \<longrightarrow> lkInv lr"
      "\<forall>x. cbSub b = Some x \<longrightarrow> subInv x" "m' = installBridge ch b (setSlotChannel i ch m)"
    using assms(1) by (auto simp: started_def)
  show "deadOK D m'" if "deadOK D m"
    using deadOK_setSlotChannel [OF that, of i ch] freeSlot_Some [OF assms(2)] by (simp add: b(5))
  show "wired m' = wired m" "usersOK m' = usersOK m" "timersOK m' = timersOK m"
    "presenceOK m' = presenceOK m" "roomsSane m' = roomsSane m" by (simp_all add: b(5))
  show "piecesOK m'" if "piecesOK m"
    using that b(3,4) by (simp add: piecesOK_def b(5))
  show "slotsOK m'" if "slotsOK m" "gget (mgActive m) ch = None" "ch \<noteq> freeCh" "ch \<noteq> deadCh"
    using slotsOK_claim [OF that assms(2) b(1,2)] by (simp add: b(5))
qed

lemma stopTake_keeps:
  shows "wired (snd (stopTake ch m)) = wired m" and "usersOK (snd (stopTake ch m)) = usersOK m"
    and "timersOK (snd (stopTake ch m)) = timersOK m" and "presenceOK (snd (stopTake ch m)) = presenceOK m"
    and "roomsSane (snd (stopTake ch m)) = roomsSane m"
    and "piecesOK m \<Longrightarrow> piecesOK (snd (stopTake ch m))" and "deadOK D m \<Longrightarrow> deadOK D (snd (stopTake ch m))"
proof -
  show "deadOK D (snd (stopTake ch m))" if "deadOK D m"
    using deadOK_setSlotChannel [of D "m\<lparr>mgActive := gdel ch (mgActive m)\<rparr>"] that
    by (auto simp: stopTake_def Let_def split: option.split)
qed (auto simp: stopTake_def Let_def piecesOK_def split: option.split if_splits)

text \<open>The invariant, at the level of the two operations.\<close>

lemma bridgeInv_stop: "bridgeInv D m \<Longrightarrow> bridgeInv D (snd (stopTake ch m))"
  by (simp add: bridgeInv_def stopTake_keeps slotsOK_stopTake)

lemma goes_stop:
  assumes "bridgeInv D m"
  shows "goes (\<lambda>s. bridgeInv D (fst s)) (stopBridgeForChannel env ch (m, h))"
  using assms bridgeInv_stop [OF assms]
  by (intro goes_mono [OF stopBridge_spec]) (auto simp: bridgeInv_def)

lemma goes_start:
  assumes inv: "bridgeInv D m"
  shows "goes (\<lambda>s. bridgeInv D (fst s)) (startBridge env ch (m, h))"
proof -
  have ch: "ch \<noteq> freeCh \<and> ch \<noteq> deadCh" if "ggetz '''' (mgChannelRooms m) ch \<noteq> ''''"
    using inv that by (auto simp: bridgeInv_def roomsSane_def ggetz_def)
  have "bridgeInv D m'" if "started ch i m m'" "freeSlot (mgSlots m) = Some i" "gget (mgActive m) ch = None"
      "ggetz '''' (mgChannelRooms m) ch \<noteq> ''''" for i m'
    using started_keeps [OF that(1,2)] inv ch [OF that(4)] that(3) by (simp add: bridgeInv_def)
  then show ?thesis
    using inv by (intro goes_mono [OF startBridge_spec]) (auto simp: bridgeInv_def split: if_splits option.splits)
qed

section \<open>Timers\<close>

lemma timersOK_unique:
  assumes "timersOK m" and "gget (mgStopTimers m) a = Some t" and "gget (mgStopTimers m) b = Some t"
  shows "a = b"
proof -
  have "(t, a) \<in> set (mgArmed m)" "(t, b) \<in> set (mgArmed m)" "distinct (map fst (mgArmed m))"
    using assms by (simp_all add: timersOK_def)
  then show ?thesis by (metis eq_key_imp_eq_value)
qed

lemma cancelTimer_fields [simp]:
  "mgMatrixUsers (fst (cancelTimer ch s)) = mgMatrixUsers (fst s)"
  "mgActive (fst (cancelTimer ch s)) = mgActive (fst s)" "mgSlots (fst (cancelTimer ch s)) = mgSlots (fst s)"
  "mgStopping (fst (cancelTimer ch s)) = mgStopping (fst s)"
  "mgSignaller (fst (cancelTimer ch s)) = mgSignaller (fst s)"
  "mgChannelRooms (fst (cancelTimer ch s)) = mgChannelRooms (fst s)"
  "mgRoomChannels (fst (cancelTimer ch s)) = mgRoomChannels (fst s)"
  by (simp_all add: cancelTimer_def split: prod.split option.split)

lemma cancelTimer_stop [simp]:
  "gget (mgStopTimers (fst (cancelTimer ch s))) c = (if c = ch then None else gget (mgStopTimers (fst s)) c)"
  by (auto simp: cancelTimer_def split: prod.split option.split)

lemma timersOK_cancel:
  assumes "timersOK (fst s)"
  shows "timersOK (fst (cancelTimer ch s))"
proof (cases s)
  case (Pair m h)
  show ?thesis
  proof (cases "gget (mgStopTimers m) ch")
    case None
    then show ?thesis using assms by (simp add: Pair cancelTimer_def)
  next
    case (Some t)
    have "c = ch \<longleftrightarrow> t' = t" if "gget (mgStopTimers m) c = Some t'" for c t'
      using timersOK_unique [of m c t ch] assms Some that by (auto simp: Pair)
    then show ?thesis
      using assms Some by (auto simp: Pair cancelTimer_def timersOK_def distinct_map_filter)
  qed
qed

lemma bridgeInv_cancel: "bridgeInv D (fst s) \<Longrightarrow> bridgeInv D (fst (cancelTimer ch s))"
  using timersOK_cancel [of s ch]
  by (cases s) (auto simp: bridgeInv_def cancelTimer_def split: option.split)

lemma timersOK_arm:
  assumes "timersOK (fst s)" and "glen (usersOf (fst s) ch) = 0"
  shows "timersOK (fst (armStop ch s))"
proof (cases s)
  case (Pair m h)
  have c: "timersOK (fst (cancelTimer ch s))" using assms(1) by (rule timersOK_cancel)
  have "fst (armStop ch s) = (fst (cancelTimer ch s))\<lparr>mgStopTimers := gput ch (mgNextTimer m) (mgStopTimers m),
      mgArmed := mgArmed (fst (cancelTimer ch s)) @ [(mgNextTimer m, ch)], mgNextTimer := Suc (mgNextTimer m)\<rparr>"
    by (simp add: Pair armStop_def cancelTimer_def Let_def split: option.split)
  moreover have "mgNextTimer (fst (cancelTimer ch s)) = mgNextTimer m"
    by (simp add: Pair cancelTimer_def split: option.split)
  moreover have "(t, c) \<in> set (mgArmed (fst (cancelTimer ch s))) \<longleftrightarrow> (c \<noteq> ch \<and> gget (mgStopTimers m) c = Some t)" for t c
    using c by (auto simp: timersOK_def Pair)
  moreover have "t < mgNextTimer m" if "t \<in> set (map fst (mgArmed (fst (cancelTimer ch s))))" for t
    using c that calculation(2) by (auto simp: timersOK_def)
  moreover have "distinct (map fst (mgArmed (fst (cancelTimer ch s))))" using c by (simp add: timersOK_def)
  moreover have "usersOf (fst (cancelTimer ch s)) = usersOf m" by (simp add: usersOf_def [abs_def] Pair)
  moreover have "gget (mgStopTimers m) c = Some t \<Longrightarrow> glen (usersOf m c) = 0" for c t
    using assms(1) by (simp add: timersOK_def Pair del: glen_eq_0)
  moreover have "gget (mgStopTimers m) c = Some t \<Longrightarrow> c \<noteq> ch \<Longrightarrow> t < mgNextTimer m" for c t
    using assms(1) by (force simp: timersOK_def Pair)
  ultimately show ?thesis
    using assms(2) unfolding timersOK_def by (auto simp: Pair image_iff less_Suc_eq simp del: glen_eq_0)
qed

section \<open>Matrix users\<close>

lemma usersOK_D: "usersOK m \<Longrightarrow> gget (usersOf m a) u \<noteq> None \<Longrightarrow> gget (usersOf m b) u \<noteq> None \<Longrightarrow> a = b"
  unfolding usersOK_def by blast

lemma setUsers_simps [simp]:
  "gget (usersOf (setUsers ch us m) c) u = (if c = ch then gget us u else gget (usersOf m c) u)"
  "wired (setUsers ch us m) = wired m" "slotsOK (setUsers ch us m) = slotsOK m"
  "roomsSane (setUsers ch us m) = roomsSane m" "piecesOK (setUsers ch us m) = piecesOK m"
  "presenceOK (setUsers ch us m) = presenceOK m" "mgStopTimers (setUsers ch us m) = mgStopTimers m"
  "mgArmed (setUsers ch us m) = mgArmed m" "mgNextTimer (setUsers ch us m) = mgNextTimer m"
  "mgActive (setUsers ch us m) = mgActive m" "deadOK D (setUsers ch us m) = deadOK D m"
  by (auto simp: setUsers_def usersOf_def ggetz_def)

lemma setUsers_entries:
  "gget (mgMatrixUsers (setUsers ch us m)) c = Some vs \<Longrightarrow> glen vs = 0 \<Longrightarrow> c \<noteq> ch \<and> gget (mgMatrixUsers m) c = Some vs"
  by (auto simp: setUsers_def simp del: glen_eq_0 split: if_splits)

lemma glen_0_mono: "glen a = 0 \<Longrightarrow> (\<And>u. gget b u \<noteq> None \<Longrightarrow> gget a u \<noteq> None) \<Longrightarrow> glen b = 0"
  by fastforce

text \<open>Taking users out of a channel keeps everything.\<close>

lemma shrink_keeps:
  assumes "bridgeInv D m" and "\<And>u. gget us u \<noteq> None \<Longrightarrow> gget (usersOf m ch) u \<noteq> None"
  shows "bridgeInv D (setUsers ch us m)"
proof -
  let ?m = "setUsers ch us m"
  have sub: "gget (usersOf ?m c) u \<noteq> None \<Longrightarrow> gget (usersOf m c) u \<noteq> None" for c u
    using assms(2) by (simp split: if_splits)
  have "usersOK ?m"
    unfolding usersOK_def
  proof (intro conjI allI impI)
    fix u a b assume "gget (usersOf ?m a) u \<noteq> None \<and> gget (usersOf ?m b) u \<noteq> None"
    then show "a = b" using sub usersOK_D [of m a u b] assms(1) by (auto simp: bridgeInv_def)
  next
    fix c vs assume "gget (mgMatrixUsers ?m) c = Some vs"
    then show "glen vs \<noteq> 0"
      using setUsers_entries [of ch us m c vs] assms(1) unfolding bridgeInv_def usersOK_def by blast
  qed
  moreover have "timersOK ?m"
  proof -
    have "glen (usersOf ?m c) = 0" if "glen (usersOf m c) = 0" for c
      by (rule glen_0_mono [OF that sub])
    then show ?thesis
      using assms(1) unfolding bridgeInv_def timersOK_def by (simp del: glen_eq_0)
  qed
  ultimately show ?thesis using assms(1) by (simp add: bridgeInv_def)
qed

lemma bridgeInv_removeUser:
  assumes "bridgeInv D m"
  shows "bridgeInv D (removeUser ch user m)"
proof (cases "gget (mgMatrixUsers m) ch")
  case None
  then show ?thesis using assms by (simp add: removeUser_def)
next
  case (Some users)
  then have us: "usersOf m ch = users" by (simp add: usersOf_def ggetz_def)
  have "bridgeInv D (setUsers ch (gdel user users) m)"
    by (rule shrink_keeps [OF assms]) (simp add: us split: if_splits)
  then show ?thesis by (simp add: removeUser_def Some)
qed

lemma usersOf_cancel [simp]: "usersOf (fst (cancelTimer c s)) = usersOf (fst s)"
  by (simp add: usersOf_def [abs_def])

lemma leaveOther_keeps:
  assumes "bridgeInv D (fst s)"
  shows "bridgeInv D (fst (snd (leaveOther user ch c (stop, s))))"
    and "gget (mgStopTimers (fst (snd (leaveOther user ch c (stop, s))))) a =
      (if c \<noteq> ch \<and> gget (usersOf (fst s) c) user \<noteq> None \<and> a = c then None else gget (mgStopTimers (fst s)) a)"
    and "gget (usersOf (fst (snd (leaveOther user ch c (stop, s)))) a) u =
      (if a = c \<and> c \<noteq> ch \<and> u = user then None else gget (usersOf (fst s) a) u)"
proof -
  obtain m h where s: "s = (m, h)" by (cases s)
  let ?m = "setUsers c (gdel user (usersOf m c)) m"
  have "bridgeInv D ?m" using assms by (intro shrink_keeps) (auto simp: s split: if_splits)
  then show "bridgeInv D (fst (snd (leaveOther user ch c (stop, s))))"
    using assms bridgeInv_cancel [of D "(?m, h)" c] by (simp add: leaveOther_def s Let_def)
  show "gget (mgStopTimers (fst (snd (leaveOther user ch c (stop, s))))) a =
      (if c \<noteq> ch \<and> gget (usersOf (fst s) c) user \<noteq> None \<and> a = c then None else gget (mgStopTimers (fst s)) a)"
    by (cases "gget (usersOf m c) user = None") (auto simp: leaveOther_def s Let_def)
  show "gget (usersOf (fst (snd (leaveOther user ch c (stop, s)))) a) u =
      (if a = c \<and> c \<noteq> ch \<and> u = user then None else gget (usersOf (fst s) a) u)"
    by (auto simp: leaveOther_def s Let_def)
qed

end
