(* ===== verification/BridgeRun.thy ===== *)
theory BridgeRun
  imports BridgeInv
begin

text \<open>
  Every handler of the manager keeps its invariant and does not panic; then the properties of runs.
\<close>

section \<open>Users\<close>

lemma bridgeInv_frame [simp]:
  "bridgeInv D (m\<lparr>mgStore := a\<rparr>) = bridgeInv D m" "bridgeInv D (m\<lparr>mgGuildSpace := b\<rparr>) = bridgeInv D m"
  "bridgeInv D (m\<lparr>mgCategorySpaces := c\<rparr>) = bridgeInv D m" "bridgeInv D (m\<lparr>mgChannelInfos := d\<rparr>) = bridgeInv D m"
  "bridgeInv D (m\<lparr>mgReadLoops := e\<rparr>) = bridgeInv D m" "bridgeInv D (m\<lparr>mgStopping := f\<rparr>) = bridgeInv D m"
  by (simp_all add: bridgeInv_def)

lemma fold_leaveOther_keeps:
  assumes "bridgeInv D (fst s)"
  shows "bridgeInv D (fst (snd (fold (leaveOther user ch) cs (stop, s)))) \<and>
    gget (mgStopTimers (fst (snd (fold (leaveOther user ch) cs (stop, s))))) ch = gget (mgStopTimers (fst s)) ch \<and>
    (\<forall>a u. gget (usersOf (fst (snd (fold (leaveOther user ch) cs (stop, s)))) a) u =
      (if a \<in> set cs \<and> a \<noteq> ch \<and> u = user then None else gget (usersOf (fst s) a) u))"
  using assms
proof (induction cs arbitrary: stop s)
  case (Cons c cs)
  obtain stop1 s1 where s1: "leaveOther user ch c (stop, s) = (stop1, s1)" by (cases "leaveOther user ch c (stop, s)")
  note k = leaveOther_keeps [OF Cons.prems, of user ch c stop, unfolded s1 snd_conv]
  have IH: "bridgeInv D (fst (snd (fold (leaveOther user ch) cs (stop1, s1)))) \<and>
    gget (mgStopTimers (fst (snd (fold (leaveOther user ch) cs (stop1, s1))))) ch = gget (mgStopTimers (fst s1)) ch \<and>
    (\<forall>a u. gget (usersOf (fst (snd (fold (leaveOther user ch) cs (stop1, s1)))) a) u =
      (if a \<in> set cs \<and> a \<noteq> ch \<and> u = user then None else gget (usersOf (fst s1) a) u))"
    by (rule Cons.IH) (rule k(1))
  moreover have "gget (mgStopTimers (fst s1)) ch = gget (mgStopTimers (fst s)) ch"
    unfolding k(2) by auto
  moreover have "gget (usersOf (fst s1) a) u = (if a = c \<and> c \<noteq> ch \<and> u = user then None else gget (usersOf (fst s) a) u)" for a u
    by (rule k(3))
  ultimately show ?case by (simp add: s1)
qed simp

lemma leaveOthers_keeps:
  assumes "bridgeInv D (fst s)" and "leaveOthers env user ch s = (stop, s1)"
  shows "bridgeInv D (fst s1)" and "gget (mgStopTimers (fst s1)) ch = gget (mgStopTimers (fst s)) ch"
    and "a \<noteq> ch \<Longrightarrow> gget (usersOf (fst s1) a) user = None"
    and "gget (usersOf (fst s1) ch) u = gget (usersOf (fst s) ch) u"
    and "u \<noteq> user \<Longrightarrow> gget (usersOf (fst s1) a) u = gget (usersOf (fst s) a) u"
proof -
  let ?cs = "pick (rangeOrder env (snd s)) (gkeys (mgMatrixUsers (fst s)))"
  have r: "snd (fold (leaveOther user ch) ?cs ([], s)) = s1"
    using assms(2) by (simp add: leaveOthers_def)
  note k = fold_leaveOther_keeps [OF assms(1), of user ch ?cs "[]", unfolded r]
  show "bridgeInv D (fst s1)" "gget (mgStopTimers (fst s1)) ch = gget (mgStopTimers (fst s)) ch"
    "gget (usersOf (fst s1) ch) u = gget (usersOf (fst s) ch) u" using k by auto
  show "u \<noteq> user \<Longrightarrow> gget (usersOf (fst s1) a) u = gget (usersOf (fst s) a) u" using k by auto
  show "gget (usersOf (fst s1) a) user = None" if "a \<noteq> ch"
  proof (cases "a \<in> set ?cs")
    case True
    then show ?thesis using k that by simp
  next
    case False
    then have "usersOf (fst s) a = []" by (simp add: usersOf_def ggetz_def)
    then show ?thesis using k by simp
  qed
qed

lemma bridgeInv_addUser:
  assumes inv: "bridgeInv D m" and free: "gget (mgStopTimers m) ch = None"
    and alone: "\<And>a. a \<noteq> ch \<Longrightarrow> gget (usersOf m a) user = None"
  shows "bridgeInv D (addUser ch user name m)"
proof -
  let ?m = "addUser ch user name m"
  have us: "usersOf ?m c = (if c = ch then gput user name (usersOf m ch) else usersOf m c)" for c
    by (simp add: addUser_def usersOf_def)
  have "a = b" if u: "gget (usersOf ?m a) u \<noteq> None" "gget (usersOf ?m b) u \<noteq> None" for a b u
  proof (cases "u = user")
    case True
    then show ?thesis using u alone by (auto simp: us split: if_splits)
  next
    case False
    then have "gget (usersOf m a) u \<noteq> None" "gget (usersOf m b) u \<noteq> None"
      using u by (auto simp: us split: if_splits)
    then show ?thesis using usersOK_D inv unfolding bridgeInv_def by blast
  qed
  moreover have "glen vs \<noteq> 0" if "gget (mgMatrixUsers ?m) c = Some vs" for c vs
  proof (cases "c = ch")
    case True
    then have "gget vs user \<noteq> None" using that by (auto simp: addUser_def)
    then show ?thesis by auto
  next
    case False
    then have "gget (mgMatrixUsers m) c = Some vs" using that by (simp add: addUser_def)
    then show ?thesis using inv unfolding bridgeInv_def usersOK_def by blast
  qed
  ultimately have "usersOK ?m" unfolding usersOK_def by blast
  moreover have "timersOK ?m"
    using inv free unfolding bridgeInv_def timersOK_def us by (auto simp: addUser_def simp del: glen_eq_0)
  ultimately show ?thesis using inv by (simp add: bridgeInv_def addUser_def)
qed

lemma stopTake_fields [simp]:
  "mgMatrixUsers (snd (stopTake ch m)) = mgMatrixUsers m" "mgStopTimers (snd (stopTake ch m)) = mgStopTimers m"
  "mgArmed (snd (stopTake ch m)) = mgArmed m" "mgVoiceStates (snd (stopTake ch m)) = mgVoiceStates m"
  "mgSignaller (snd (stopTake ch m)) = mgSignaller m" "mgChannelRooms (snd (stopTake ch m)) = mgChannelRooms m"
  "mgRoomChannels (snd (stopTake ch m)) = mgRoomChannels m"
  by (simp_all add: stopTake_def setSlotChannel_def Let_def split: option.split)

lemma usersOf_stopTake [simp]: "usersOf (snd (stopTake ch m)) = usersOf m"
  by (simp add: usersOf_def [abs_def])

text \<open>Stopping several channels: the invariant stays, users and timers are untouched.\<close>

lemma goes_stops:
  assumes "bridgeInv D (fst s)"
  shows "goes (\<lambda>s1. bridgeInv D (fst s1) \<and> usersOf (fst s1) = usersOf (fst s) \<and>
      mgStopTimers (fst s1) = mgStopTimers (fst s) \<and> mgSignaller (fst s1) = mgSignaller (fst s))
    (foldM (stopBridgeForChannel env) cs s)"
proof (rule goes_foldM)
  fix c and s1 :: mst
  assume a: "bridgeInv D (fst s1) \<and> usersOf (fst s1) = usersOf (fst s) \<and>
      mgStopTimers (fst s1) = mgStopTimers (fst s) \<and> mgSignaller (fst s1) = mgSignaller (fst s)"
  obtain m h where s1: "s1 = (m, h)" by (cases s1)
  have "piecesOK m" using a by (simp add: s1 bridgeInv_def)
  from stopBridge_spec [OF this, of c env h]
  show "goes (\<lambda>s1. bridgeInv D (fst s1) \<and> usersOf (fst s1) = usersOf (fst s) \<and>
      mgStopTimers (fst s1) = mgStopTimers (fst s) \<and> mgSignaller (fst s1) = mgSignaller (fst s))
      (stopBridgeForChannel env c s1)"
    unfolding s1 by (rule goes_mono) (use a bridgeInv_stop in \<open>auto simp: s1\<close>)
qed (simp add: assms)

lemma goes_stops_inv: "bridgeInv D (fst s) \<Longrightarrow> goes (\<lambda>s1. bridgeInv D (fst s1)) (foldM (stopBridgeForChannel env) cs s)"
  by (rule goes_mono [OF goes_stops]) auto

lemma pushMatrixUsers_fst [simp]: "fst (pushMatrixUsers env ch s) = fst s"
  by (simp add: pushMatrixUsers_def Let_def split: prod.split option.split)

lemma goes_matrixJoin:
  assumes "bridgeInv D (fst s)"
  shows "goes (\<lambda>s1. bridgeInv D (fst s1)) (matrixJoin env ch user s)"
proof -
  let ?s0 = "cancelTimer ch s"
  have inv0: "bridgeInv D (fst ?s0)" by (rule bridgeInv_cancel [OF assms])
  obtain stop s1 where lo: "leaveOthers env user ch ?s0 = (stop, s1)" by (cases "leaveOthers env user ch ?s0")
  note k = leaveOthers_keeps [OF inv0 lo]
  have step: "goes (\<lambda>s1. bridgeInv D (fst s1)) (startBridge env ch (addUser ch user name m2, h3))"
    if "bridgeInv D m2" "usersOf m2 = usersOf (fst s1)" "mgStopTimers m2 = mgStopTimers (fst s1)" for name m2 h3
    using that k(2,3) by (intro goes_start bridgeInv_addUser) auto
  show ?thesis
    unfolding matrixJoin_def Let_def lo case_prod_conv goes_bind
    by (rule goes_mono [OF goes_stops [OF k(1)]]) (auto simp: step split: prod.split)
qed

lemma bridgeInv_arm:
  assumes "bridgeInv D (fst s)" and "glen (usersOf (fst s) ch) = 0"
  shows "bridgeInv D (fst (armStop ch s))"
  using timersOK_arm [of s ch] assms
  by (cases s) (simp add: bridgeInv_def armStop_def Let_def del: glen_eq_0 split: option.split_asm option.split)

lemma bridgeInv_matrixLeave: "bridgeInv D (fst s) \<Longrightarrow> bridgeInv D (fst (matrixLeave env ch user s))"
  by (simp add: matrixLeave_def Let_def bridgeInv_removeUser bridgeInv_arm del: glen_eq_0)

lemma goes_OnMatrixCallMember:
  "bridgeInv D (fst s) \<Longrightarrow> goes (\<lambda>s1. bridgeInv D (fst s1)) (OnMatrixCallMember env room user joined s)"
  by (simp add: OnMatrixCallMember_def goes_matrixJoin bridgeInv_matrixLeave split: option.split)

section \<open>Timers and slots\<close>

text \<open>A timer that fires loses its entry, as a cancelled one does.\<close>

lemma fired_manager:
  assumes "timersOK m" and "map_of (mgArmed m) t = Some ch"
  shows "snd (timerCallback ch (m\<lparr>mgArmed := filter (\<lambda>a. fst a \<noteq> t) (mgArmed m)\<rparr>)) = fst (cancelTimer ch (m, h))"
    and "gget (mgStopTimers m) ch = Some t" and "glen (usersOf m ch) = 0"
proof -
  show t: "gget (mgStopTimers m) ch = Some t"
    using assms map_of_SomeD [of "mgArmed m" t ch] by (simp add: timersOK_def)
  then show "snd (timerCallback ch (m\<lparr>mgArmed := filter (\<lambda>a. fst a \<noteq> t) (mgArmed m)\<rparr>)) = fst (cancelTimer ch (m, h))"
    by (simp add: timerCallback_def cancelTimer_def)
  show "glen (usersOf m ch) = 0" using t assms(1) unfolding timersOK_def by blast
qed

lemma goes_timerFires:
  assumes "bridgeInv D (fst s)"
  shows "goes (\<lambda>s1. bridgeInv D (fst s1)) (timerFires env t s)"
proof (cases s)
  case (Pair m h)
  show ?thesis
  proof (cases "map_of (mgArmed m) t")
    case None
    then show ?thesis using assms by (simp add: Pair timerFires_def)
  next
    case (Some ch)
    have "timersOK m" using assms by (simp add: Pair bridgeInv_def)
    note f = fired_manager(1) [OF this Some, of h]
    have "bridgeInv D (fst (cancelTimer ch (m, h)))" using bridgeInv_cancel assms by (simp add: Pair)
    then show ?thesis
      using f by (auto simp: Pair timerFires_def Some goes_stop split: prod.split)
  qed
qed

lemma goes_runStopping:
  "bridgeInv D (fst s) \<Longrightarrow> goes (\<lambda>s1. bridgeInv D (fst s1)) (runStopping env i s)"
  by (cases s) (auto simp: runStopping_def intro!: goes_stop)

lemma cancelTimer_slot [simp]: "fst (cancelTimer ch (setSlotChannel i c m, h)) = setSlotChannel i c (fst (cancelTimer ch (m, h)))"
  by (simp add: cancelTimer_def setSlotChannel_def split: option.split)

text \<open>The death of a slot whose bridge is known.\<close>

lemma bridgeInv_vacate:
  assumes "bridgeInv D m" and "gget (mgActive m) ch = Some b" and "x = freeCh \<or> x = deadCh"
  shows "bridgeInv D ((setSlotChannel (cbSlot b) x m)\<lparr>mgActive := gdel ch (mgActive m)\<rparr>)"
proof -
  have ok: "slotsOK m" using assms(1) by (simp add: bridgeInv_def)
  have "deadOK D (setSlotChannel (cbSlot b) x m)"
    using deadOK_setSlotChannel [of D m "cbSlot b" x] slotsOK_D [OF ok assms(2)] assms(1) by (simp add: bridgeInv_def)
  then show ?thesis using slotsOK_vacate [OF ok assms(2,3)] assms(1) by (simp add: bridgeInv_def piecesOK_def)
qed

lemma bridgeInv_retire:
  "bridgeInv D m \<Longrightarrow> i < length (mgSlots m) \<Longrightarrow> \<not> busySlot (mgSlots m ! i) \<Longrightarrow> bridgeInv D (setSlotChannel i deadCh m)"
  using slotsOK_retire [of m i] deadOK_setSlotChannel [of D m i deadCh] by (simp add: bridgeInv_def)

text \<open>The bridge on a slot: the one of the channel the slot carries, if the slot is busy.\<close>

lemma find_on_slot:
  assumes "slotsOK m"
  shows "List.find (\<lambda>ch. case gget (mgActive m) ch of None \<Rightarrow> False | Some b \<Rightarrow> int (cbSlot b) = idx)
        (pick ord (gkeys (mgActive m))) =
     (if 0 \<le> idx \<and> nat idx < length (mgSlots m) \<and> busySlot (mgSlots m ! nat idx)
      then Some (slChannel (mgSlots m ! nat idx)) else None)" (is "List.find ?P ?ks = _")
proof -
  have at: "0 \<le> idx \<and> nat idx < length (mgSlots m) \<and> busySlot (mgSlots m ! nat idx) \<and>
      slChannel (mgSlots m ! nat idx) = ch" if "?P ch" for ch
    using that slotsOK_D [OF assms, of ch] by (auto simp: busySlot_def split: option.splits)
  show ?thesis
  proof (cases "List.find ?P ?ks")
    case None
    have no: "\<not> ?P ch" for ch
    proof
      assume p: "?P ch"
      then have "ch \<in> set ?ks" by (auto split: option.splits)
      with None p show False unfolding find_None_iff by blast
    qed
    have "\<not> (0 \<le> idx \<and> nat idx < length (mgSlots m) \<and> busySlot (mgSlots m ! nat idx))"
      using slotsOK_busy [OF assms, of "nat idx"] no by (force split: option.splits)
    then show ?thesis using None by auto
  next
    case (Some ch)
    then have "?P ch" by (auto simp: find_Some_iff)
    then show ?thesis using at Some by auto
  qed
qed

lemma deathMark_cases:
  assumes inv: "bridgeInv D m" and "deathMark env idx (m, h) = Some (c, m1, h1)"
  shows "(c = 0 \<and> bridgeInv D m1) \<or>
    (\<exists>b m2. gget (mgActive m2) c = Some b \<and> c \<noteq> 0 \<and> bridgeInv D m2 \<and> m1 = setSlotChannel (cbSlot b) deadCh m2)"
proof -
  let ?i = "nat idx"
  have ok: "slotsOK m" using inv by (simp add: bridgeInv_def)
  show ?thesis
  proof (cases "0 \<le> idx \<and> ?i < length (mgSlots m)")
    case False
    then show ?thesis using assms by (auto simp: deathMark_def find_on_slot [OF ok] Let_def)
  next
    case True
    show ?thesis
    proof (cases "busySlot (mgSlots m ! ?i)")
      case busy: True
      let ?c = "slChannel (mgSlots m ! ?i)"
      obtain b where b: "gget (mgActive m) ?c = Some b" "cbSlot b = ?i"
        using slotsOK_busy [OF ok _ busy] True by blast
      have c0: "?c \<noteq> 0" "?c \<noteq> deadCh" using busy by (simp_all add: busySlot_def freeCh_def)
      then have "c = ?c \<and> m1 = setSlotChannel ?i deadCh (fst (cancelTimer ?c (m, h)))"
        using assms(2) True busy by (auto simp: deathMark_def find_on_slot [OF ok] Let_def split: prod.splits)
      moreover have "bridgeInv D (fst (cancelTimer ?c (m, h)))" using bridgeInv_cancel inv by simp
      ultimately show ?thesis using b c0 by (intro disjI2 exI [of _ b] exI [of _ "fst (cancelTimer ?c (m, h))"]) simp
    next
      case idle: False
      then have "c = 0 \<and> m1 = setSlotChannel ?i deadCh m"
        using assms(2) True by (auto simp: deathMark_def find_on_slot [OF ok] Let_def split: if_splits)
      then show ?thesis using bridgeInv_retire inv True idle by simp
    qed
  qed
qed

lemma stopTake_dead:
  assumes "bridgeInv D m" and "gget (mgActive m) c = Some b"
  shows "bridgeInv D (snd (stopTake c (setSlotChannel (cbSlot b) deadCh m)))"
proof -
  have i: "cbSlot b < length (mgSlots m)" using slotsOK_D(4) [of m c b] assms by (simp add: bridgeInv_def)
  have "snd (stopTake c (setSlotChannel (cbSlot b) deadCh m)) =
      (setSlotChannel (cbSlot b) deadCh m)\<lparr>mgActive := gdel c (mgActive m)\<rparr>"
    using i assms(2) by (simp add: stopTake_def setSlotChannel_def Let_def)
  then show ?thesis using bridgeInv_vacate [OF assms, of deadCh] by simp
qed

lemma goes_HandleSlotDeath:
  assumes "bridgeInv D (fst s)"
  shows "goes (\<lambda>s1. bridgeInv D (fst s1)) (HandleSlotDeath env idx s)"
proof (cases "deathMark env idx s")
  case None
  then show ?thesis using assms by (simp add: HandleSlotDeath_def)
next
  case (Some r)
  obtain m h c m1 h1 where e: "s = (m, h)" "r = (c, m1, h1)" by (metis prod_cases3 surj_pair)
  have inv: "bridgeInv D m" using assms by (simp add: e)
  have mark: "deathMark env idx (m, h) = Some (c, m1, h1)" using Some by (simp add: e)
  from deathMark_cases [OF inv mark] show ?thesis
  proof (elim disjE exE conjE)
    assume "c = 0" "bridgeInv D m1"
    then show ?thesis by (simp add: HandleSlotDeath_def mark e)
  next
    fix b m2
    assume m2: "gget (mgActive m2) c = Some b" "c \<noteq> 0" "bridgeInv D m2" "m1 = setSlotChannel (cbSlot b) deadCh m2"
    have "piecesOK m1" using m2 by (simp add: bridgeInv_def)
    then have "goes (\<lambda>s1. bridgeInv D (fst s1)) (stopBridgeForChannel env c (m1, h1))"
      by (rule goes_mono [OF stopBridge_spec]) (use stopTake_dead [OF m2(3,1)] m2(4) in auto)
    then show ?thesis using m2(2) by (simp add: HandleSlotDeath_def mark e)
  qed
qed

section \<open>Presence\<close>

lemma signaller_of_inv: "bridgeInv D m \<Longrightarrow> \<exists>sg. mgSignaller m = Some sg \<and> sgWF sg"
  by (auto simp: bridgeInv_def wired_def presenceOK_def)

lemma bridgeInv_voice:
  assumes "bridgeInv D m" and "sgWF sg"
    and "\<And>u. gget (sgActive sg) u \<noteq> None \<Longrightarrow> ggetz 0 (mgVoiceStates (setVoiceState uid ch m)) u \<noteq> 0"
  shows "bridgeInv D ((setVoiceState uid ch m)\<lparr>mgSignaller := Some sg\<rparr>)"
proof -
  have "presenceOK ((setVoiceState uid ch m)\<lparr>mgSignaller := Some sg\<rparr>)"
    using assms(2,3) by (simp add: presenceOK_def setVoiceState_def)
  then show ?thesis using assms(1) by (simp add: bridgeInv_def setVoiceState_def wired_def)
qed

lemma voiceStates_set:
  "ggetz 0 (mgVoiceStates (setVoiceState uid ch m)) u = (if u = uid then ch else ggetz 0 (mgVoiceStates m) u)"
  by (simp add: setVoiceState_def)

lemma bridgeInv_onVoiceState:
  assumes "bridgeInv D (fst s)"
  shows "bridgeInv D (fst (onVoiceState env uid ch s))"
proof -
  obtain m h where s: "s = (m, h)" by (cases s)
  have inv: "bridgeInv D m" using assms by (simp add: s)
  obtain sg where sg: "mgSignaller m = Some sg" "sgWF sg" using signaller_of_inv [OF inv] by blast
  have act: "gget (sgActive sg) u \<noteq> None \<Longrightarrow> ggetz 0 (mgVoiceStates m) u \<noteq> 0" for u
    using inv sg(1) by (simp add: bridgeInv_def presenceOK_def)
  let ?m1 = "setVoiceState uid ch m"
  let ?old = "ggetz 0 (mgVoiceStates m) uid"
  have sg1: "mgSignaller ?m1 = Some sg" by (simp add: setVoiceState_def sg)
  obtain sgA hA where A: "(if ?old \<noteq> 0 \<and> ?old \<noteq> ch then snd (LeaveCall env uid (sg, h)) else (sg, h)) = (sgA, hA)"
    by fastforce
  have wA: "sgWF sgA" using A sgWF_LeaveCall [OF sg(2), of env uid h] sg(2) by (auto split: if_splits)
  have aA: "gget (sgActive sgA) u = (if u = uid \<and> ?old \<noteq> 0 \<and> ?old \<noteq> ch then None else gget (sgActive sg) u)" for u
    using LeaveCall_active [of env uid sg h u] A by (auto split: if_splits)
  let ?room = "ggetz '''' (mgChannelRooms ?m1) ch"
  obtain sgB hB where B: "(if ch \<noteq> 0 \<and> ?room \<noteq> '''' then snd (JoinCall env uid ?room (sgA, hA)) else (sgA, hA)) = (sgB, hB)"
    by fastforce
  have wB: "sgWF sgB" using B sgWF_JoinCall [OF wA, of env uid ?room hA] wA by (auto split: if_splits)
  have aB: "gget (sgActive sgB) u \<noteq> None \<Longrightarrow> (u = uid \<and> ch \<noteq> 0) \<or> gget (sgActive sgA) u \<noteq> None" for u
    using JoinCall_state [of env uid ?room sgA hA] B
    by (cases "JoinCall env uid ?room (sgA, hA)") (auto split: if_splits)
  have "fst (onVoiceState env uid ch s) = ?m1\<lparr>mgSignaller := Some sgB\<rparr>"
    using A B unfolding s onVoiceState_def Let_def case_prod_conv sg1 option.case by (simp split: prod.split)
  moreover have "bridgeInv D (?m1\<lparr>mgSignaller := Some sgB\<rparr>)"
    using inv wB
  proof (rule bridgeInv_voice)
    fix u assume u: "gget (sgActive sgB) u \<noteq> None"
    show "ggetz 0 (mgVoiceStates ?m1) u \<noteq> 0"
    proof (cases "u = uid \<and> ch \<noteq> 0")
      case False
      then have "gget (sgActive sgA) u \<noteq> None" using aB [OF u] by blast
      then have "gget (sgActive sg) u \<noteq> None" "u = uid \<Longrightarrow> \<not> (?old \<noteq> 0 \<and> ?old \<noteq> ch)"
        unfolding aA by (auto split: if_splits)
      then show ?thesis using act [of u] False by (auto simp: voiceStates_set)
    qed (simp add: voiceStates_set)
  qed
  ultimately show ?thesis by simp
qed

lemma bridgeInv_shrink_presence:
  assumes "bridgeInv D m" and "mgSignaller m = Some sg" and "sgWF sg1"
    and "\<And>u. gget (sgActive sg1) u \<noteq> None \<Longrightarrow> gget (sgActive sg) u \<noteq> None"
  shows "bridgeInv D (m\<lparr>mgSignaller := Some sg1\<rparr>)"
  using assms by (simp add: bridgeInv_def wired_def) (auto simp: presenceOK_def)

lemma goes_CloseManager:
  assumes "bridgeInv D (fst s)"
  shows "goes (\<lambda>s1. bridgeInv D (fst s1)) (CloseManager env s)"
proof -
  have cancels: "bridgeInv D (fst s0) \<Longrightarrow> bridgeInv D (fst (fold cancelTimer cs s0))" for cs and s0 :: mst
    by (induction cs arbitrary: s0) (simp_all add: bridgeInv_cancel)
  have leave: "bridgeInv D (m1\<lparr>mgSignaller := Some (fst (LeaveAll env (sg, h1)))\<rparr>)"
    if "bridgeInv D m1" "mgSignaller m1 = Some sg" for m1 sg h1
  proof (rule bridgeInv_shrink_presence [OF that])
    show "sgWF (fst (LeaveAll env (sg, h1)))"
      using signaller_of_inv [OF that(1)] that(2) sgWF_fold_LeaveCall by (simp add: LeaveAll_def Let_def)
    show "gget (sgActive (fst (LeaveAll env (sg, h1)))) u \<noteq> None \<Longrightarrow> gget (sgActive sg) u \<noteq> None" for u
      using fold_LeaveCall [of env "pick (rangeOrder env h1) (gkeys (sgActive sg))" sg h1]
      by (auto simp: LeaveAll_def Let_def split: if_splits)
  qed
  obtain m h where c: "fold cancelTimer (pick (rangeOrder env (snd s)) (gkeys (mgStopTimers (fst s)))) s = (m, h)"
    by fastforce
  have "bridgeInv D m" using cancels [OF assms, of "pick (rangeOrder env (snd s)) (gkeys (mgStopTimers (fst s)))"] c by simp
  then have "goes (\<lambda>s1. bridgeInv D (fst s1)) (foldM (stopBridgeForChannel env) cs (m, h))" for cs
    by (intro goes_stops_inv) simp
  then show ?thesis
    unfolding CloseManager_def Let_def c case_prod_conv goes_bind
    by (rule goes_mono) (use leave in \<open>auto split: option.split prod.split\<close>; metis fst_conv)
qed

section \<open>Rooms\<close>

definition saneCh :: "u64 \<Rightarrow> bool" where
  "saneCh ch \<longleftrightarrow> ch \<noteq> freeCh \<and> ch \<noteq> deadCh"

lemma bridgeInv_linkRoom: "bridgeInv D m \<Longrightarrow> saneCh ch \<Longrightarrow> bridgeInv D (linkRoom ch room m)"
  by (auto simp: linkRoom_def bridgeInv_def roomsSane_def saneCh_def)

lemma persistRoom_inv [simp]: "bridgeInv D (fst (persistRoom env r s)) = bridgeInv D (fst s)"
  by (simp add: persistRoom_def split: prod.split option.split)

lemma goes_discoverGuildSpace:
  "bridgeInv D (fst s) \<Longrightarrow> goes (\<lambda>rs. bridgeInv D (fst (snd rs))) (discoverGuildSpace env s)"
  using signaller_of_inv [of D "fst s"]
  by (cases s) (auto simp: discoverGuildSpace_def Let_def split: sum.split prod.split option.split)

lemma categoryChild_inv: "bridgeInv D (fst s) \<Longrightarrow> bridgeInv D (fst (categoryChild env usr child s))"
  by (cases s) (auto simp: categoryChild_def Let_def split: sum.split option.split)

lemma fold_categoryChild_inv:
  "bridgeInv D (fst s) \<Longrightarrow> bridgeInv D (fst (fold (categoryChild env usr) cs s))"
  by (induction cs arbitrary: s) (simp_all add: categoryChild_inv)

lemma goes_discoverCategorySpaces:
  "bridgeInv D (fst s) \<Longrightarrow> goes (\<lambda>s1. bridgeInv D (fst s1)) (discoverCategorySpaces env s)"
  using signaller_of_inv [of D "fst s"]
  by (cases s) (auto simp: discoverCategorySpaces_def Let_def fold_categoryChild_inv split: sum.split option.split)

lemma goes_addToGuildSpace:
  assumes "bridgeInv D (fst s)"
  shows "goes (\<lambda>s1. bridgeInv D (fst s1)) (addToGuildSpace env room cat s)"
proof -
  obtain r m h where d: "discoverGuildSpace env s = Some (r, m, h)" "bridgeInv D m"
    using goes_discoverGuildSpace [OF assms, of env] unfolding goes_iff by (metis prod.collapse)
  have "\<exists>m1 h1. (if glen (mgCategorySpaces m) = 0 then discoverCategorySpaces env (m, h) else Some (m, h)) = Some (m1, h1) \<and>
      bridgeInv D m1"
    using goes_discoverCategorySpaces [of D "(m, h)" env] d(2) by (auto simp: goes_iff simp del: glen_eq_0)
  then obtain m1 h1 where c: "(if glen (mgCategorySpaces m) = 0 then discoverCategorySpaces env (m, h) else Some (m, h)) = Some (m1, h1)"
      "bridgeInv D m1"
    by blast
  obtain sg where "mgSignaller m1 = Some sg" using signaller_of_inv [OF c(2)] by blast
  then show ?thesis
    unfolding addToGuildSpace_def d(1) Option.bind.simps case_prod_conv c(1)
    using c(2) d(2) by (simp add: Let_def split: sum.split prod.split)
qed

text \<open>The room of a channel with a sane number can be created without a panic.\<close>

lemma goes_ensureMatrixRoom:
  assumes inv: "bridgeInv D (fst s)" and ch: "saneCh ch"
  shows "goes (\<lambda>rs. bridgeInv D (fst (snd rs))) (ensureMatrixRoom env ch info s)"
proof -
  obtain m h where s: "s = (m, h)" by (cases s)
  obtain sg where sg: "mgSignaller m = Some sg" using signaller_of_inv [OF inv] by (auto simp: s)
  show ?thesis
  proof (cases "gget (mgChannelRooms m) ch")
    case (Some room)
    then show ?thesis using inv by (simp add: s ensureMatrixRoom_def)
  next
    case None
    have space: "goes (\<lambda>s6. bridgeInv D (fst s6)) (addToGuildSpace env room cat (fst p, h5))"
      if "persistRoom env r (linkRoom ch room m, h2) = p" for room cat r h2 h5 p
      using inv ch bridgeInv_linkRoom [of D m ch room] persistRoom_inv [of D env r "(linkRoom ch room m, h2)"]
      by (intro goes_addToGuildSpace) (simp add: s that)
    have "goes (\<lambda>x. \<forall>a b. x = (a, b) \<longrightarrow> bridgeInv D a) (addToGuildSpace env room cat (fst p, h5))"
      if "persistRoom env r (linkRoom ch room m, h2) = p" for room cat r h2 h5 p
      using space [OF that] by (rule goes_mono) auto
    then show ?thesis
      unfolding s ensureMatrixRoom_def case_prod_conv None option.case sg Let_def
      using inv space by (auto simp: s split: sum.split prod.split)
  qed
qed

text \<open>What the homeserver says about rooms names sane channels only.\<close>

definition saneStates :: "env \<Rightarrow> bool" where
  "saneStates env \<longleftrightarrow> (\<forall>h e st bridges kv ch name. askState env h e = Inr st \<longrightarrow>
     map_of st ''m.bridge'' = Some bridges \<longrightarrow> kv \<in> set bridges \<longrightarrow>
     bridgeEntry '''' (fst kv) (snd kv) = Some (ch, name) \<longrightarrow> saneCh ch)"

lemma bridgeEntry_prefix: "bridgeEntry pfx k raw = Some c \<Longrightarrow> bridgeEntry '''' k raw = Some c"
  by (simp add: bridgeEntry_def hasPrefix_def split: if_splits)

lemma rebuildEntry_inv:
  assumes "bridgeInv D (fst (snd s))" and "\<And>ch name. bridgeEntry '''' (fst kv) (snd kv) = Some (ch, name) \<Longrightarrow> saneCh ch"
  shows "bridgeInv D (fst (snd (rebuildEntry env room kv s)))"
proof -
  obtain n m h where s: "s = (n, m, h)" by (metis prod_cases3)
  show ?thesis
    using assms bridgeEntry_prefix [of "bridgePrefix m" "fst kv" "snd kv"]
    by (auto simp: s rebuildEntry_def bridgeInv_linkRoom split: option.split)
qed

lemma fold_rebuildEntry_inv:
  assumes "bridgeInv D (fst (snd s))"
    and "\<And>kv ch name. kv \<in> set kvs \<Longrightarrow> bridgeEntry '''' (fst kv) (snd kv) = Some (ch, name) \<Longrightarrow> saneCh ch"
  shows "bridgeInv D (fst (snd (fold (rebuildEntry env room) kvs s)))"
  using assms
proof (induction kvs arbitrary: s)
  case (Cons kv kvs)
  have "bridgeInv D (fst (snd (rebuildEntry env room kv s)))"
    by (rule rebuildEntry_inv [OF Cons.prems(1)]) (use Cons.prems(2) [of kv] in auto)
  then have "bridgeInv D (fst (snd (fold (rebuildEntry env room) kvs (rebuildEntry env room kv s))))"
    by (rule Cons.IH) (use Cons.prems(2) in auto)
  then show ?case by simp
qed simp

lemma rebuildRoom_inv:
  assumes "bridgeInv D (fst (snd s))" and "saneStates env"
  shows "bridgeInv D (fst (snd (rebuildRoom env sg room s)))"
proof -
  obtain n m h where s: "s = (n, m, h)" by (metis prod_cases3)
  let ?e = "Hs (HsRoomState (botMXID sg) room)"
  show ?thesis
  proof (cases "askState env h ?e")
    case (Inr st)
    show ?thesis
    proof (cases "map_of st ''m.bridge''")
      case (Some bridges)
      have "saneCh ch" if "kv \<in> set bridges" "bridgeEntry '''' (fst kv) (snd kv) = Some (ch, name)" for kv ch name
        using assms(2) Inr Some that unfolding saneStates_def by blast
      then have "bridgeInv D (fst (snd (fold (rebuildEntry env room) (pick ord bridges) (n, m, h'))))" for ord h'
        using assms(1) by (intro fold_rebuildEntry_inv) (auto simp: s)
      then show ?thesis by (simp add: s rebuildRoom_def Let_def Inr Some)
    qed (use assms(1) in \<open>simp add: s rebuildRoom_def Let_def Inr\<close>)
  qed (use assms(1) in \<open>simp add: s rebuildRoom_def Let_def\<close>)
qed

lemma goes_RebuildDB:
  assumes "bridgeInv D (fst s)" and "saneStates env"
  shows "goes (\<lambda>rs. bridgeInv D (fst (snd rs))) (RebuildDB env s)"
proof -
  obtain m h where s: "s = (m, h)" by (cases s)
  obtain sg where sg: "mgSignaller m = Some sg" using signaller_of_inv [OF assms(1)] by (auto simp: s)
  have "bridgeInv D (fst (snd x)) \<Longrightarrow> bridgeInv D (fst (snd (fold (rebuildRoom env sg) rooms x)))" for rooms and x :: "nat \<times> mst"
    by (induction rooms arbitrary: x) (simp_all add: rebuildRoom_inv assms(2))
  from this [of "(0, m, h')" for h'] show ?thesis
    using assms(1) by (auto simp: s RebuildDB_def sg Let_def split: sum.split prod.split) (metis fst_conv snd_conv)
qed

section \<open>Bots\<close>

lemma slotsOK_add:
  assumes "slotsOK m" and "slIndex sl = length (mgSlots m)" and "slChannel sl = freeCh"
  shows "slotsOK (addSlot sl m)"
proof -
  have "bridgesOnSlots (addSlot sl m)"
    using slotsOK_D [OF assms(1)] by (auto simp: bridgesOnSlots_def addSlot_def nth_append intro: less_SucI)
  moreover have "slotsHaveBridges (addSlot sl m)"
    using slotsOK_busy [OF assms(1)] assms(3)
    by (auto simp: slotsHaveBridges_def addSlot_def nth_append busySlot_def)
  ultimately show ?thesis using assms by (simp add: slotsOK_def addSlot_def)
qed

lemma bridgeInv_add:
  assumes "bridgeInv D m" and "slIndex sl = length (mgSlots m)" and "slChannel sl = freeCh" and "slConn sl \<noteq> None"
  shows "bridgeInv D (addSlot sl m)"
proof -
  have "deadOK D m" using assms(1) by (simp add: bridgeInv_def)
  then have "deadOK D (addSlot sl m)" by (auto simp: deadOK_def addSlot_def nth_append)
  then show ?thesis using slotsOK_add [of m sl] assms by (auto simp: bridgeInv_def addSlot_def wired_def)
qed

text \<open>Writing the row id into a slot changes nothing the invariant speaks about.\<close>

lemma bridgeInv_dbid:
  assumes "bridgeInv D m" and "i < length (mgSlots m)"
  shows "bridgeInv D (m\<lparr>mgSlots := (mgSlots m)[i := (mgSlots m ! i)\<lparr>slBotDBID := d\<rparr>]\<rparr>)" (is "bridgeInv D ?m")
proof -
  have ch: "slChannel (mgSlots ?m ! j) = slChannel (mgSlots m ! j)" if "j < length (mgSlots m)" for j
    using that assms(2) by (simp add: nth_list_update)
  have "bridgesOnSlots ?m" "slotsHaveBridges ?m"
    using slotsOK_D [of m] slotsOK_busy [of m] ch assms
    by (auto simp: bridgeInv_def bridgesOnSlots_def slotsHaveBridges_def busySlot_def)
  moreover have "map slIndex (mgSlots ?m) = map slIndex (mgSlots m)"
    using assms(2) by (simp add: map_update list_update_same_conv)
  moreover have "wired ?m"
    using assms set_update_subset_insert [of "mgSlots m" i] by (fastforce simp: bridgeInv_def wired_def)
  moreover have "deadOK D ?m"
    using ch assms(1) by (auto simp: bridgeInv_def deadOK_def)
  ultimately show ?thesis using assms(1) by (simp add: bridgeInv_def slotsOK_def)
qed

lemma bridgeInv_persistBot:
  "bridgeInv D (fst s) \<Longrightarrow> i < length (mgSlots (fst s)) \<Longrightarrow> bridgeInv D (fst (persistBot env token i s))"
proof -
  assume a: "bridgeInv D (fst s)" "i < length (mgSlots (fst s))"
  obtain m h where s: "s = (m, h)" by (cases s)
  have "bridgeInv D (m\<lparr>mgStore := db, mgSlots := (mgSlots m)[i := (mgSlots m ! i)\<lparr>slBotDBID := d\<rparr>]\<rparr>)" for db d
    using bridgeInv_dbid [of D "m\<lparr>mgStore := db\<rparr>" i d] a by (simp add: s)
  then show ?thesis using a by (auto simp: s persistBot_def split: option.split sum.split prod.split)
qed

lemma bridgeInv_AddBot:
  assumes "bridgeInv D (fst s)"
  shows "bridgeInv D (fst (snd (AddBot env token s)))"
proof -
  obtain m h where s: "s = (m, h)" by (cases s)
  have new: "bridgeInv D (fst (persistBot env token (length (mgSlots m)) (addSlot \<lparr>slConn = Some c, slIndex = length (mgSlots m),
      slPrimary = False, slToken = maskToken token, slBotDBID = 0, slChannel = freeCh\<rparr> m, h')))" for c h'
    using assms by (intro bridgeInv_persistBot) (auto simp: s addSlot_def intro: bridgeInv_add [unfolded addSlot_def])
  have "bridgeInv D (fst p)" if "persistBot env token (length (mgSlots m)) (addSlot \<lparr>slConn = Some c, slIndex = length (mgSlots m),
      slPrimary = False, slToken = maskToken token, slBotDBID = 0, slChannel = freeCh\<rparr> m, h') = p" for c h' p
    using new that by blast
  note new' = this [OF sym]
  show ?thesis
    using assms by (auto simp: s AddBot_def Let_def split: sum.split prod.split) (use new in \<open>metis fst_conv\<close>)+
qed

lemma goes_RemoveBot:
  assumes "bridgeInv D (fst s)"
  shows "goes (\<lambda>rs. bridgeInv D (fst (snd rs))) (RemoveBot env idx s)"
proof -
  obtain m h where s: "s = (m, h)" by (cases s)
  have death: "goes (\<lambda>s1. bridgeInv D (fst s1)) (HandleSlotDeath env idx (m1, h1))" if "bridgeInv D m1" for m1 h1
    using that by (intro goes_HandleSlotDeath) simp
  have store: "bridgeInv D (fst (case mgStore m of
      Some db \<Rightarrow> if slBotDBID sl > 0
        then (case storeRemoveBot env (slBotDBID sl) (db, h) of (_, db1, h1) \<Rightarrow> (m\<lparr>mgStore := Some db1\<rparr>, h1)) else (m, h)
    | None \<Rightarrow> (m, h)))" for sl
    using assms by (simp add: s split: option.split prod.split)
  have "goes (\<lambda>x. \<forall>a b. x = (a, b) \<longrightarrow> bridgeInv D a) (HandleSlotDeath env idx p)" if "bridgeInv D (fst p)" for p
    using death [of "fst p" "snd p"] that by (auto elim: goes_mono)
  then show ?thesis
    using assms store
    by (auto simp: s RemoveBot_def Let_def split: prod.split option.split)
qed

lemma goes_ManualJoin: "bridgeInv D (fst s) \<Longrightarrow> goes (\<lambda>rs. bridgeInv D (fst (snd rs))) (ManualJoin env name s)"
  by (cases s) (simp add: ManualJoin_def Let_def goes_start)

lemma goes_ManualLeave: "bridgeInv D (fst s) \<Longrightarrow> goes (\<lambda>rs. bridgeInv D (fst (snd rs))) (ManualLeave env name s)"
  by (cases s) (simp add: ManualLeave_def Let_def goes_stop goes_stops_inv)

section \<open>Messages\<close>

lemma bridgeForSlot_Some:
  assumes "slotsOK m" and "bridgeForSlot ord i m = Some b"
  shows "gget (mgActive m) (cbChannel b) = Some b" and "cbSlot b = i"
proof -
  have "b \<in> set (activeBridgeList ord m)" "cbSlot b = i"
    using assms(2) by (auto simp: bridgeForSlot_def find_Some_iff)
  then obtain ch where ch: "gget (mgActive m) ch = Some b"
    by (auto simp: activeBridgeList_def List.map_filter_def)
  with slotsOK_D(3) [OF assms(1) ch] show "gget (mgActive m) (cbChannel b) = Some b" by simp
  show "cbSlot b = i" by fact
qed

lemma bridgeInv_install:
  assumes "bridgeInv D m" and "gget (mgActive m) ch = Some b0" and "cbChannel b = ch" and "cbSlot b = cbSlot b0"
    and "\<And>lr. cbLK b = Some lr \<Longrightarrow> lkInv lr" and "\<And>x. cbSub b = Some x \<Longrightarrow> subInv x"
  shows "bridgeInv D (installBridge ch b m)"
  using slotsOK_install [of m ch b0 b] assms by (simp add: bridgeInv_def piecesOK_def)

lemma piecesOK_lk: "bridgeInv D m \<Longrightarrow> gget (mgActive m) ch = Some b \<Longrightarrow> cbLK b = Some lr \<Longrightarrow> lkInv lr"
  and piecesOK_sub: "bridgeInv D m \<Longrightarrow> gget (mgActive m) ch = Some b \<Longrightarrow> cbSub b = Some x \<Longrightarrow> subInv x"
  by (simp_all add: bridgeInv_def piecesOK_def)

text \<open>A payload that fits the frame is decoded without a panic.\<close>

lemma leUint64_some: "8 \<le> length p \<Longrightarrow> \<exists>v. leUint64 p = Some v"
  and leUint16_some: "2 \<le> length p \<Longrightarrow> \<exists>v. leUint16 p = Some v"
  by (auto simp: leUint64_def leUint16_def)

lemma u16_sum:
  fixes w :: "16 word"
  assumes "k + unat w \<le> 65535"
  shows "unat (of_nat k + w) = k + unat w"
  using assms by (subst unat_add_lem [THEN iffD1]) (simp_all add: unat_of_nat)

lemma channelMeta_some:
  assumes "18 \<le> length p" and "length p \<le> 65535"
  shows "\<exists>info. channelMeta p = Some info"
proof -
  obtain c where c: "leUint64 (take 8 (drop 8 p)) = Some c" using leUint64_some [of "take 8 (drop 8 p)"] assms(1) by auto
  obtain w where w: "leUint16 (take 2 (drop 16 p)) = Some w" using leUint16_some [of "take 2 (drop 16 p)"] assms(1) by auto
  have "unat (18 + w) = 18 + unat w" if "18 + unat w \<le> length p"
    using u16_sum [of 18 w] that assms(2) by simp
  then show ?thesis using assms(1) by (simp add: channelMeta_def c w goslice_def)
qed

lemma voiceStatePayload_some: "length p \<le> 65535 \<Longrightarrow> \<exists>r. voiceStatePayload p = Some r"
  using channelMeta_some [of p] leUint64_some [of p] by (auto simp: voiceStatePayload_def)

lemma userInfoPayload_some:
  assumes "2 \<le> length p" and "length p \<le> 65535"
  shows "\<exists>r. userInfoPayload p = Some r"
proof -
  obtain w where w: "leUint16 (take 2 p) = Some w" using leUint16_some [of "take 2 p"] assms(1) by auto
  have n: "unat (2 + w) = 2 + unat w" if "2 + unat w \<le> length p"
    using u16_sum [of 2 w] that assms(2) by simp
  have a: "\<exists>v. leUint16 (take 2 (drop k p)) = Some v" if "k + 2 \<le> length p" for k
    using leUint16_some [of "take 2 (drop k p)"] that by simp
  show ?thesis
    using assms(1) n a [of "2 + unat w"] by (auto simp: userInfoPayload_def w goslice_def Let_def)
qed

text \<open>The condition on a message: its payload came out of a frame, and a channel list names real channels.\<close>

definition msgOK :: "message \<Rightarrow> bool" where
  "msgOK msg \<longleftrightarrow> length (msgPayload msg) \<le> 65535 \<and>
     (msgType msg = MsgChannelList \<longrightarrow> (\<forall>ch. leUint64 (msgPayload msg) = Some ch \<longrightarrow> saneCh ch))"

lemma goes_audio:
  assumes inv: "bridgeInv D m" and b: "bridgeForSlot ord i m = Some x" and lr: "cbLK x = Some lr"
    and w: "WriteOpus env u p (lr, h) = (e, lr1, h1)"
  shows "bridgeInv D (installBridge (cbChannel x) (x\<lparr>cbLK := Some lr1\<rparr>) m)"
proof -
  have ok: "slotsOK m" using inv by (simp add: bridgeInv_def)
  note x = bridgeForSlot_Some(1) [OF ok b]
  have "lkInv lr1" using lkInv_frame [OF piecesOK_lk [OF inv x lr], of env u p h] w by simp
  then show ?thesis using piecesOK_sub [OF inv x] by (intro bridgeInv_install [OF inv x]) auto
qed

lemma dispatch_distinct [simp]:
  "MsgChannelList \<noteq> MsgVoiceState" "MsgUserJoin \<noteq> MsgVoiceState" "MsgUserInfo \<noteq> MsgVoiceState"
  "MsgLeaveChannel \<noteq> MsgVoiceState" "MsgAudioFromDiscord \<noteq> MsgVoiceState"
  "MsgUserJoin \<noteq> MsgChannelList" "MsgUserInfo \<noteq> MsgChannelList" "MsgLeaveChannel \<noteq> MsgChannelList"
  "MsgAudioFromDiscord \<noteq> MsgChannelList" "MsgUserInfo \<noteq> MsgUserJoin" "MsgLeaveChannel \<noteq> MsgUserJoin"
  "MsgAudioFromDiscord \<noteq> MsgUserJoin" "MsgLeaveChannel \<noteq> MsgUserInfo" "MsgAudioFromDiscord \<noteq> MsgUserInfo"
  "MsgAudioFromDiscord \<noteq> MsgLeaveChannel"
  by (simp_all add: msg_types)

lemma goes_HandleMessage:
  assumes inv: "bridgeInv D (fst s)" and msg: "msgOK msg"
  shows "goes (\<lambda>rs. bridgeInv D (fst (snd rs))) (HandleMessage env i msg s)"
proof -
  obtain m h where s: "s = (m, h)" by (cases s)
  let ?p = "msgPayload msg"
  have len: "length ?p \<le> 65535" using msg by (simp add: msgOK_def)
  have m: "bridgeInv D m" using inv by (simp add: s)
  consider "msgType msg = MsgVoiceState" | "msgType msg = MsgChannelList" | "msgType msg = MsgUserInfo"
    | "msgType msg = MsgAudioFromDiscord"
    | "msgType msg \<noteq> MsgVoiceState" "msgType msg \<noteq> MsgChannelList" "msgType msg \<noteq> MsgUserInfo" "msgType msg \<noteq> MsgAudioFromDiscord"
    by blast
  then show ?thesis
  proof cases
    case 1
    obtain ch info where p: "voiceStatePayload ?p = Some (ch, info)" using voiceStatePayload_some [OF len] by auto
    have "bridgeInv D (fst (onVoiceState env (msgUserID msg) ch (if ch \<noteq> 0 then setInfo ch info m else m, h)))"
      using m by (intro bridgeInv_onVoiceState) (simp add: setInfo_def)
    then show ?thesis by (simp add: s HandleMessage_def 1 p Let_def)
  next
    case 2
    show ?thesis
    proof (cases "18 \<le> length ?p")
      case True
      obtain ch where ch: "leUint64 ?p = Some ch" "saneCh ch"
        using leUint64_some [of ?p] True msg 2 by (auto simp: msgOK_def)
      obtain info where info: "channelMeta ?p = Some info" using channelMeta_some [OF True len] by blast
      have "goes (\<lambda>rs. bridgeInv D (fst (snd rs))) (ensureMatrixRoom env ch info (setInfo ch info m, h))"
        using m ch(2) by (intro goes_ensureMatrixRoom) (simp_all add: setInfo_def)
      then show ?thesis
        by (auto simp: s HandleMessage_def 2 ch info True Let_def elim!: goes_mono)
    qed (use m in \<open>simp add: s HandleMessage_def 2\<close>)
  next
    case 3
    obtain sg where sg: "mgSignaller m = Some sg" "sgWF sg" using signaller_of_inv [OF m] by blast
    have "bridgeInv D (m\<lparr>mgSignaller := Some (fst (EnsureProfile env u n a (sg, h)))\<rparr>)" for u n a
      by (rule bridgeInv_shrink_presence [OF m sg(1)])
        (use sg(2) in \<open>auto simp: EnsureProfile_state sgWF_def split: if_splits\<close>)
    then show ?thesis
      using m userInfoPayload_some [of ?p] len
      by (auto simp: s HandleMessage_def 3 sg Let_def split: prod.split) (metis fst_conv)
  next
    case 4
    then show ?thesis
      using m goes_audio [OF m]
      by (auto simp: s HandleMessage_def Let_def split: option.split prod.split)
  next
    case 5
    have "bridgeInv D (installBridge (cbChannel x) (x\<lparr>cbJoined := j\<rparr>) m)"
      if "bridgeForSlot ord i m = Some x" for x j ord
    proof -
      have ok: "slotsOK m" using m by (simp add: bridgeInv_def)
      note x = bridgeForSlot_Some(1) [OF ok that]
      show ?thesis using piecesOK_lk [OF m x] piecesOK_sub [OF m x] by (intro bridgeInv_install [OF m x]) auto
    qed
    then show ?thesis
      using 5 m by (auto simp: s HandleMessage_def Let_def split: option.split)
  qed
qed

end
