(* ===== verification/BridgeProps.thy ===== *)
theory BridgeProps
  imports BridgeRun
begin

text \<open>
  The manager from its start on: rooms of earlier runs are found again, then events arrive in any order. The
  invariant of \<open>BridgeInv\<close> holds along every such session; the properties spell its consequences out.
\<close>

section \<open>The start of a session\<close>

definition saneRooms :: "database \<Rightarrow> bool" where
  "saneRooms db \<longleftrightarrow> (\<forall>ch \<in> set (gkeys (dbRooms db)). saneCh ch)"

lemma storeListRooms_sane:
  assumes "saneRooms db" and "storeListRooms env g db h = (Inr rooms, h1)" and "r \<in> set rooms"
  shows "saneCh (rmDiscordChannel r)"
proof -
  have "rmDiscordChannel r \<in> set (gkeys (dbRooms db))"
    using assms(2,3) by (auto simp: storeListRooms_def scanRoom_def List.map_filter_def split: option.splits prod.splits)
  then show ?thesis using assms(1) unfolding saneRooms_def by blast
qed

lemma loadRooms_inv:
  "bridgeInv D m \<Longrightarrow> (\<And>r. r \<in> set rooms \<Longrightarrow> saneCh (rmDiscordChannel r)) \<Longrightarrow> bridgeInv D (fold loadRoom rooms m)"
  by (induction rooms arbitrary: m) (simp_all add: loadRoom_def Let_def bridgeInv_linkRoom)

lemma discoverResults_inv:
  "bridgeInv D (fst s) \<Longrightarrow> (\<And>r. r \<in> set rs \<Longrightarrow> saneCh (fst r)) \<Longrightarrow> bridgeInv D (fst (fold (discoverResult env) rs s))"
proof (induction rs arbitrary: s)
  case (Cons r rs)
  have "bridgeInv D (fst (discoverResult env r s))"
    using Cons.prems by (cases s) (simp add: discoverResult_def bridgeInv_linkRoom)
  then show ?case using Cons.IH Cons.prems(2) by simp
qed simp

lemma scanState_sane:
  assumes "saneStates env" and "\<forall>r \<in> set (fst s). saneCh (fst r)"
  shows "\<forall>r \<in> set (fst (scanState env usr pfx room s)). saneCh (fst r)"
proof -
  obtain found h where s: "s = (found, h)" by (cases s)
  let ?e = "Hs (HsRoomState usr room)"
  have "saneCh (fst c)" if "askState env h ?e = Inr st" "map_of st ''m.bridge'' = Some bridges" "kv \<in> set bridges"
      "bridgeEntry pfx (fst kv) (snd kv) = Some c" for st bridges kv c
    using assms(1) that bridgeEntry_prefix [OF that(4)] unfolding saneStates_def by (metis prod.collapse)
  then show ?thesis
    using assms(2) by (auto simp: s scanState_def Let_def List.map_filter_def split: sum.split option.split)
qed

lemma scanStates_sane:
  "saneStates env \<Longrightarrow> \<forall>r \<in> set (fst s). saneCh (fst r) \<Longrightarrow>
   \<forall>r \<in> set (fst (fold (scanState env usr pfx) rooms s)). saneCh (fst r)"
proof (induction rooms arbitrary: s)
  case (Cons room rooms)
  then show ?case using Cons.IH [OF Cons.prems(1) scanState_sane [OF Cons.prems]] by (simp only: fold_simps)
qed simp

lemma goes_Discover:
  assumes inv: "bridgeInv D (fst s)" and env: "saneStates env"
    and rows: "\<And>db. mgStore (fst s) = Some db \<Longrightarrow> saneRooms db"
  shows "goes (\<lambda>rs. bridgeInv D (fst (snd rs))) (DiscoverExistingRooms env s)"
proof -
  obtain m h where s: "s = (m, h)" by (cases s)
  obtain sg where sg: "mgSignaller m = Some sg" using signaller_of_inv [OF inv] by (auto simp: s)
  have stored: "bridgeInv D (fold loadRoom rooms m)"
    if "mgStore m = Some db" "storeListRooms env g db h1 = (Inr rooms, h2)" for db g h1 h2 rooms
    using inv storeListRooms_sane [OF rows [of db] that(2)] that(1) by (intro loadRooms_inv) (auto simp: s)
  have scanned: "bridgeInv D (fst (fold (discoverResult env) (pick ord found) (m, h2)))"
    if "scanRooms env usr pfx rs h1 = (found, h2')" for ord found usr pfx rs h1 h2 h2'
    using scanStates_sane [OF env, of "([], h1)" usr pfx "pick (rangeOrder env h1) rs"] that inv
    by (intro discoverResults_inv) (auto simp: s scanRooms_def)
  have m: "bridgeInv D m" using inv by (simp add: s)
  obtain usr h1 where reg: "callErr env (Hs (HsRegister (botMXID sg))) h = (usr, h1)" by fastforce
  define rows where "rows = (case mgStore m of None \<Rightarrow> ([], h1)
    | Some db \<Rightarrow> (case storeListRooms env (mgGuildID m) db h1 of (Inl _, h2) \<Rightarrow> ([], h2) | (Inr rooms, h2) \<Rightarrow> (rooms, h2)))"
  obtain rooms h2 where r: "rows = (rooms, h2)" by (cases rows)
  have loaded: "bridgeInv D (fold loadRoom rooms m)"
  proof (cases "mgStore m")
    case (Some db)
    then show ?thesis
      using m r stored [OF Some, of "mgGuildID m" h1] by (auto simp: rows_def split: prod.splits sum.splits)
  qed (use m r in \<open>simp add: rows_def\<close>)
  show ?thesis
    unfolding s DiscoverExistingRooms_def case_prod_conv sg option.case Let_def reg rows_def [symmetric] r
    using m loaded scanned by (auto split: sum.split prod.split)
qed

section \<open>Events and sessions\<close>

definition eventOK :: "env \<Rightarrow> bridgeEvent \<Rightarrow> bool" where
  "eventOK env e = (case e of MsgEv i msg \<Rightarrow> msgOK msg | RebuildEv \<Rightarrow> saneStates env | _ \<Rightarrow> True)"

lemma inv_slotsOK: "bridgeInv D m \<Longrightarrow> slotsOK m"
  by (simp add: bridgeInv_def)

lemma lkSide_inv: "bridgeInv D (fst s) \<Longrightarrow> bridgeInv D (fst (lkSide env ch ev s))"
proof -
  assume inv: "bridgeInv D (fst s)"
  obtain m h where s: "s = (m, h)" by (cases s)
  have "bridgeInv D (installBridge ch (b\<lparr>cbLK := Some lr1\<rparr>) m)"
    if "gget (mgActive m) ch = Some b" "cbLK b = Some lr" "lkStep env ev (lr, h) = (lr1, h1)" for b lr lr1 h1
  proof -
    have m: "bridgeInv D m" using inv by (simp add: s)
    have "lkInv lr1" using lk_machine.step_inv [of "(lr, h)" env ev] piecesOK_lk [OF m that(1,2)] that(3) by simp
    moreover have "cbChannel b = ch" by (rule slotsOK_D(3) [OF inv_slotsOK [OF m] that(1)])
    ultimately show ?thesis using piecesOK_sub [OF m that(1)] by (intro bridgeInv_install [OF m that(1)]) auto
  qed
  then show ?thesis using inv by (auto simp: s lkSide_def split: option.split prod.split)
qed

lemma goes_subSide: "bridgeInv D (fst s) \<Longrightarrow> goes (\<lambda>s1. bridgeInv D (fst s1)) (subSide ch ev s)"
proof -
  assume inv: "bridgeInv D (fst s)"
  obtain m h where s: "s = (m, h)" by (cases s)
  have "\<exists>x1. subStep ev (Some x) = Some x1 \<and> bridgeInv D (installBridge ch (b\<lparr>cbSub := Some x1\<rparr>) m)"
    if "gget (mgActive m) ch = Some b" "cbSub b = Some x" for b x
  proof -
    have m: "bridgeInv D m" using inv by (simp add: s)
    note sub = piecesOK_sub [OF m that]
    obtain x1 where x1: "subStep ev (Some x) = Some x1" "subInv x1"
      using subStep_inv [of "Some x" ev] sub by blast
    moreover have "cbChannel b = ch" by (rule slotsOK_D(3) [OF inv_slotsOK [OF m] that(1)])
    ultimately show ?thesis
      using piecesOK_lk [OF m that(1)] by (intro exI [of _ x1] conjI bridgeInv_install [OF m that(1)]) auto
  qed
  then show ?thesis using inv by (fastforce simp: s subSide_def split: option.split)
qed

lemma goes_bridgeStep:
  assumes "bridgeInv D (fst s)" and "eventOK env e"
  shows "goes (\<lambda>s1. bridgeInv D (fst s1)) (bridgeStep env e s)"
  using assms
  by (cases e) (simp_all add: eventOK_def goes_HandleMessage goes_OnMatrixCallMember goes_timerFires goes_runStopping
    goes_HandleSlotDeath bridgeInv_AddBot goes_RemoveBot goes_ManualJoin goes_ManualLeave goes_RebuildDB
    goes_CloseManager lkSide_inv goes_subSide)

interpretation bridge_machine: panic_machine "bridgeStep env" "eventOK env" "\<lambda>s. bridgeInv D (fst s)" for env D
  by unfold_locales (rule goes_bridgeStep)

text \<open>
  What \<^verbatim>\<open>run\<close> puts the manager together from, and the start of a session: the manager, the settings for
  hot-added bots, the rooms of earlier runs. A failed discovery is only logged.
\<close>

record bridgeSetup =
  suSlots :: "slot list"
  suSignaller :: signaller
  suStore :: "database option"
  suLkConfig :: lkConfig
  suGuildID :: string
  suServerName :: string
  suLkJWTSvc :: string
  suSidecar :: sidecarCfg

definition openManager :: "env \<Rightarrow> bridgeSetup \<Rightarrow> history \<Rightarrow> mst option" where
  "openManager env su h =
     map_option snd (DiscoverExistingRooms env
       (SetSidecarConfig (suSidecar su)
         (NewManager (suSlots su) (Some (suSignaller su)) (suStore su) (suLkConfig su) (suGuildID su)
            (suServerName su) (suLkJWTSvc su)), h))"

definition session :: "env \<Rightarrow> bridgeSetup \<Rightarrow> bridgeEvent list \<Rightarrow> history \<Rightarrow> mst option" where
  "session env su evs h = Option.bind (openManager env su h) (foldM (bridgeStep env) evs)"

text \<open>
  The conditions on a session: every slot is connected, free and numbered by its position, nobody has a
  membership yet, the homeserver and the database name no channel 0 or \<open>2\<^sup>6\<^sup>4 - 1\<close>, and the events are as
  the sidecars can send them.
\<close>

definition freshSlots :: "slot list \<Rightarrow> bool" where
  "freshSlots ss \<longleftrightarrow> map slIndex ss = [0..<length ss] \<and> (\<forall>sl \<in> set ss. slConn sl \<noteq> None \<and> slChannel sl = freeCh)"

definition sessionOK :: "env \<Rightarrow> bridgeSetup \<Rightarrow> bridgeEvent list \<Rightarrow> bool" where
  "sessionOK env su evs \<longleftrightarrow> freshSlots (suSlots su) \<and> sgActive (suSignaller su) = [] \<and> saneStates env \<and>
     (\<forall>db. suStore su = Some db \<longrightarrow> saneRooms db) \<and> list_all (eventOK env) evs"

lemma bridgeInv_fresh:
  assumes "freshSlots slots" and "sgActive sg = []"
  shows "bridgeInv {} (SetSidecarConfig cfg (NewManager slots (Some sg) db lk g sn jwt))"
proof -
  have "slChannel (slots ! i) = freeCh" if "i < length slots" for i
    using assms(1) that by (simp add: freshSlots_def)
  then show ?thesis
    using assms
    by (simp add: bridgeInv_def wired_def slotsOK_def bridgesOnSlots_def slotsHaveBridges_def busySlot_def freshSlots_def
        roomsSane_def piecesOK_def usersOK_def usersOf_def timersOK_def presenceOK_def sgWF_def deadOK_def
        NewManager_def SetSidecarConfig_def)
qed

lemma goes_openManager:
  assumes "sessionOK env su evs"
  shows "goes (\<lambda>s. bridgeInv {} (fst s)) (openManager env su h)"
  unfolding openManager_def goes_map
  by (rule goes_Discover) (use assms bridgeInv_fresh in \<open>auto simp: sessionOK_def NewManager_def SetSidecarConfig_def\<close>)

lemma session_inv:
  assumes "sessionOK env su evs"
  obtains m h' where "session env su evs h = Some (m, h')" and "bridgeInv {} m"
proof -
  have "goes (\<lambda>s. bridgeInv {} (fst s)) (session env su evs h)"
    unfolding session_def goes_bind
    by (rule goes_mono [OF goes_openManager [OF assms]])
      (use assms in \<open>auto simp: sessionOK_def intro: bridge_machine.run_goes\<close>)
  then show ?thesis using that by (auto simp: goes_iff)
qed

lemma foldM_append: "foldM f (xs @ ys) s = Option.bind (foldM f xs s) (foldM f ys)"
proof (induction xs arbitrary: s)
  case (Cons x xs)
  then show ?case by (cases "f x s") simp_all
qed simp

text \<open>A session that goes on, seen from any state with the invariant.\<close>

lemma session_continues:
  assumes "sessionOK env su (evs @ more_evs)" and "session env su evs h = Some (m, h1)" and "bridgeInv D m"
  obtains m' h' where "session env su (evs @ more_evs) h = Some (m', h')" and "bridgeInv D m'"
proof -
  have "list_all (eventOK env) more_evs" using assms(1) by (simp add: sessionOK_def)
  then have "goes (\<lambda>s. bridgeInv D (fst s)) (foldM (bridgeStep env) more_evs (m, h1))"
    using assms(3) by (intro bridge_machine.run_goes) simp_all
  moreover have "session env su (evs @ more_evs) h = foldM (bridgeStep env) more_evs (m, h1)"
    using assms(2) by (cases "openManager env su h") (simp_all add: session_def foldM_append)
  ultimately show ?thesis using that by (auto simp: goes_iff)
qed

section \<open>Properties of sessions\<close>

text \<open>A small setup and what happens in it, for the examples.\<close>

definition demoSlot :: "nat \<Rightarrow> slot" where
  "demoSlot i = \<lparr>slConn = Some i, slIndex = i, slPrimary = (i = 0), slToken = ''tok'', slBotDBID = 1, slChannel = freeCh\<rparr>"

definition demoSetup :: bridgeSetup where
  "demoSetup = \<lparr>suSlots = [demoSlot 0, demoSlot 1],
     suSignaller = \<lparr>sgConfig = \<lparr>mxHomeserverURL = ''hs'', mxASToken = ''as'', mxServerName = ''x'', mxLKJWTService = ''jwt''\<rparr>,
       sgActive = [], sgProfileChecked = []\<rparr>,
     suStore = None, suLkConfig = \<lparr>lkURL = ''lk'', lkAPIKey = ''k'', lkAPISecret = ''s'', lkRoomName = ''''\<rparr>,
     suGuildID = ''1'', suServerName = ''x'', suLkJWTSvc = ''jwt'',
     suSidecar = \<lparr>scfDir = ''d'', scfSocketBase = ''/s'', scfLogLevel = ''info''\<rparr>\<rparr>"

lemma saneStates_calm: "saneStates calmEnv"
  by (simp add: saneStates_def)

lemma demoSetup_ok: "list_all (eventOK calmEnv) evs \<Longrightarrow> sessionOK calmEnv demoSetup evs"
  by (simp add: sessionOK_def demoSetup_def demoSlot_def freshSlots_def saneStates_calm upt_rec)

text \<open>
  C1: Whatever the sidecars, the homeserver, the admins and the timers do, in whatever order, the bridge
  manager never panics. After every such session a bridge is on an existing slot that carries its channel,
  a busy slot carries a channel with a bridge on it, and two bridges never share a slot.
\<close>

theorem bridge_session_safe:
  assumes "sessionOK env su evs"
  shows "\<exists>m h'. session env su evs h = Some (m, h') \<and>
     (\<forall>ch b. gget (mgActive m) ch = Some b \<longrightarrow> ch \<noteq> freeCh \<and> ch \<noteq> deadCh \<and> cbChannel b = ch \<and>
        cbSlot b < length (mgSlots m) \<and> slChannel (mgSlots m ! cbSlot b) = ch) \<and>
     (\<forall>i < length (mgSlots m). busySlot (mgSlots m ! i) \<longrightarrow>
        (\<exists>b. gget (mgActive m) (slChannel (mgSlots m ! i)) = Some b \<and> cbSlot b = i)) \<and>
     (\<forall>c b c' b'. gget (mgActive m) c = Some b \<and> gget (mgActive m) c' = Some b' \<and> cbSlot b = cbSlot b' \<longrightarrow> c = c')"
proof -
  obtain m h' where s: "session env su evs h = Some (m, h')" "bridgeInv {} m" by (rule session_inv [OF assms])
  have ok: "slotsOK m" by (rule inv_slotsOK [OF s(2)])
  have "\<forall>ch b. gget (mgActive m) ch = Some b \<longrightarrow> ch \<noteq> freeCh \<and> ch \<noteq> deadCh \<and> cbChannel b = ch \<and>
      cbSlot b < length (mgSlots m) \<and> slChannel (mgSlots m ! cbSlot b) = ch"
    using slotsOK_D [OF ok] by blast
  moreover have "\<forall>i < length (mgSlots m). busySlot (mgSlots m ! i) \<longrightarrow>
      (\<exists>b. gget (mgActive m) (slChannel (mgSlots m ! i)) = Some b \<and> cbSlot b = i)"
    using slotsOK_busy [OF ok] by blast
  moreover have "\<forall>c b c' b'. gget (mgActive m) c = Some b \<and> gget (mgActive m) c' = Some b' \<and> cbSlot b = cbSlot b' \<longrightarrow> c = c'"
    using slotsOK_inj [OF ok] by blast
  ultimately show ?thesis using s(1) by (intro exI conjI)
qed

theorem bridge_session_safe_witness:
  "\<exists>m h'. session calmEnv demoSetup [MatrixEv ''!r'' ''@a:x'' True, DeathEv 0, TimerEv 0, CloseManagerEv] [] = Some (m, h') \<and>
     (\<forall>c b c' b'. gget (mgActive m) c = Some b \<and> gget (mgActive m) c' = Some b' \<and> cbSlot b = cbSlot b' \<longrightarrow> c = c')"
  using bridge_session_safe [OF demoSetup_ok [of "[MatrixEv ''!r'' ''@a:x'' True, DeathEv 0, TimerEv 0, CloseManagerEv]"], of "[]"]
  by (simp add: eventOK_def) blast

text \<open>
  C7: In every session a Matrix user is counted in at most one voice channel, a channel without users has
  no entry, and a pending stop exists exactly for the armed timers, each of a channel nobody is in.
\<close>

theorem bridge_users_and_timers:
  assumes "sessionOK env su evs"
  shows "\<exists>m h'. session env su evs h = Some (m, h') \<and>
     (\<forall>u a b. gget (usersOf m a) u \<noteq> None \<and> gget (usersOf m b) u \<noteq> None \<longrightarrow> a = b) \<and>
     (\<forall>ch us. gget (mgMatrixUsers m) ch = Some us \<longrightarrow> glen us \<noteq> 0) \<and>
     (\<forall>t ch. (t, ch) \<in> set (mgArmed m) \<longleftrightarrow> gget (mgStopTimers m) ch = Some t) \<and>
     (\<forall>ch. gget (mgStopTimers m) ch \<noteq> None \<longrightarrow> glen (usersOf m ch) = 0)"
proof -
  obtain m h' where s: "session env su evs h = Some (m, h')" "bridgeInv {} m" by (rule session_inv [OF assms])
  then have "usersOK m" "timersOK m" by (simp_all add: bridgeInv_def)
  then show ?thesis
    using s(1) unfolding usersOK_def timersOK_def by (intro exI [of _ m] exI [of _ h']) blast
qed

theorem bridge_users_and_timers_witness:
  "\<exists>m h'. session calmEnv demoSetup [MatrixEv ''!r'' ''@a:x'' True, MatrixEv ''!r'' ''@a:x'' False, TimerEv 0] [] = Some (m, h') \<and>
     (\<forall>u a b. gget (usersOf m a) u \<noteq> None \<and> gget (usersOf m b) u \<noteq> None \<longrightarrow> a = b)"
  using bridge_users_and_timers [OF demoSetup_ok [of "[MatrixEv ''!r'' ''@a:x'' True, MatrixEv ''!r'' ''@a:x'' False, TimerEv 0]"], of "[]"]
  by (simp add: eventOK_def) blast


text \<open>A sidecar reports that user 7 is in channel 5, then that the user has left.\<close>

definition voiceMsg :: "u64 \<Rightarrow> message" where
  "voiceMsg ch = \<lparr>msgType = MsgVoiceState, msgUserID = 7, msgPayload = putUint64 ch\<rparr>"

lemma voiceMsg_ok [simp]: "msgOK (voiceMsg ch)"
  using dispatch_distinct(1) by (auto simp: msgOK_def voiceMsg_def simp del: dispatch_distinct)


text \<open>
  C8: A slot whose sidecar has died, or which has been removed, is never used again: however the session goes
  on, it stays dead and no bridge is put on it.
\<close>

theorem bridge_dead_slots:
  assumes "sessionOK env su (evs @ later)" and "session env su evs h = Some (m, h1)"
    and "i < length (mgSlots m)" and "slChannel (mgSlots m ! i) = deadCh"
  shows "\<exists>m' h'. session env su (evs @ later) h = Some (m', h') \<and> i < length (mgSlots m') \<and>
     slChannel (mgSlots m' ! i) = deadCh \<and> (\<forall>ch b. gget (mgActive m') ch = Some b \<longrightarrow> cbSlot b \<noteq> i)"
proof -
  have "sessionOK env su evs" using assms(1) by (simp add: sessionOK_def)
  then obtain m0 h0 where "session env su evs h = Some (m0, h0)" "bridgeInv {} m0" by (rule session_inv)
  then have "bridgeInv {i} m" using assms(2-4) by (simp add: bridgeInv_def deadOK_def)
  then obtain m' h' where s: "session env su (evs @ later) h = Some (m', h')" "bridgeInv {i} m'"
    by (rule session_continues [OF assms(1,2)])
  then have d: "i < length (mgSlots m')" "slChannel (mgSlots m' ! i) = deadCh" by (simp_all add: bridgeInv_def deadOK_def)
  then have "cbSlot b \<noteq> i" if "gget (mgActive m') ch = Some b" for ch b
    using slotsOK_D [OF inv_slotsOK [OF s(2)] that] by auto
  then show ?thesis using s(1) d by blast
qed

lemma demo_death:
  "\<exists>m h1. session calmEnv demoSetup [DeathEv 0] [] = Some (m, h1) \<and> 0 < length (mgSlots m) \<and> slChannel (mgSlots m ! 0) = deadCh"
  by (simp add: session_def openManager_def demoSetup_def demoSlot_def DiscoverExistingRooms_def NewManager_def
      SetSidecarConfig_def scanRooms_def HandleSlotDeath_def deathMark_def setSlotChannel_def callErr_def Let_def)

theorem bridge_dead_slots_witness:
  "\<exists>m' h'. session calmEnv demoSetup ([DeathEv 0] @ [AddBotEv ''t'', ManualJoinEv ''General'']) [] = Some (m', h') \<and>
     slChannel (mgSlots m' ! 0) = deadCh"
proof -
  obtain m h1 where s: "session calmEnv demoSetup [DeathEv 0] [] = Some (m, h1)" "0 < length (mgSlots m)"
      "slChannel (mgSlots m ! 0) = deadCh"
    using demo_death by blast
  show ?thesis
    using bridge_dead_slots [OF demoSetup_ok s, of "[AddBotEv ''t'', ManualJoinEv ''General'']"]
    by (auto simp: eventOK_def)
qed

lemma card_bridges:
  assumes ok: "slotsOK m"
  shows "glen (mgActive m) = length (filter busySlot (mgSlots m))"
proof -
  let ?B = "{i. i < length (mgSlots m) \<and> busySlot (mgSlots m ! i)}"
  let ?K = "{ch. gget (mgActive m) ch \<noteq> None}"
  have "bij_betw (\<lambda>i. slChannel (mgSlots m ! i)) ?B ?K"
  proof (rule bij_betw_byWitness [where f' = "\<lambda>ch. cbSlot (the (gget (mgActive m) ch))"])
    show "(\<lambda>i. slChannel (mgSlots m ! i)) ` ?B \<subseteq> ?K" using slotsOK_busy [OF ok] by fastforce
    show "(\<lambda>ch. cbSlot (the (gget (mgActive m) ch))) ` ?K \<subseteq> ?B"
      using slotsOK_D [OF ok] by (auto simp: busySlot_def)
    show "\<forall>i \<in> ?B. cbSlot (the (gget (mgActive m) (slChannel (mgSlots m ! i)))) = i"
      using slotsOK_busy [OF ok] by fastforce
    show "\<forall>ch \<in> ?K. slChannel (mgSlots m ! cbSlot (the (gget (mgActive m) ch))) = ch"
      using slotsOK_D(5) [OF ok] by auto
  qed
  then have "card ?B = card ?K" by (rule bij_betw_same_card)
  then show ?thesis by (simp add: glen_card length_filter_conv_card)
qed

text \<open>
  The numbers the admin interface reports agree with each other: the active bridges are as many as the
  busy slots, every slot is listed once in order, as busy exactly when it has a bridge, and then with the
  bridge's channel.
\<close>

theorem bridge_stats_agree:
  assumes "sessionOK env su evs"
  shows "\<exists>m h'. session env su evs h = Some (m, h') \<and>
     (\<exists>n users. Stats m = (n, n, length (mgSlots m), users)) \<and>
     map siIndex (ListSlots m) = [0..<length (mgSlots m)] \<and>
     (\<forall>si \<in> set (ListSlots m). siStatus si \<in> {''free'', ''dead'', ''busy''} \<and>
        (siStatus si = ''busy'' \<longleftrightarrow> (\<exists>ch b. gget (mgActive m) ch = Some b \<and> cbSlot b = siIndex si)) \<and>
        (\<forall>ch b. gget (mgActive m) ch = Some b \<and> cbSlot b = siIndex si \<longrightarrow> siChannelID si = ch))"
proof -
  obtain m h' where s: "session env su evs h = Some (m, h')" "bridgeInv {} m" by (rule session_inv [OF assms])
  have ok: "slotsOK m" by (rule inv_slotsOK [OF s(2)])
  have status: "siIndex (slotStatus m i) = i" "siStatus (slotStatus m i) \<in> {''free'', ''dead'', ''busy''}"
    "siStatus (slotStatus m i) = ''busy'' \<longleftrightarrow> busySlot (mgSlots m ! i)"
    "busySlot (mgSlots m ! i) \<Longrightarrow> siChannelID (slotStatus m i) = slChannel (mgSlots m ! i)" for i
    by (simp_all add: slotStatus_def Let_def busySlot_def split: option.split)
  have busy: "busySlot (mgSlots m ! i) \<longleftrightarrow> (\<exists>ch b. gget (mgActive m) ch = Some b \<and> cbSlot b = i)" if "i < length (mgSlots m)" for i
    using slotsOK_busy [OF ok that] slotsOK_D [OF ok] by (auto simp: busySlot_def)
  have "siChannelID (slotStatus m (cbSlot b)) = ch" if "gget (mgActive m) ch = Some b" for ch b
    using slotsOK_D [OF ok that] by (subst status(4)) (auto simp: busySlot_def)
  moreover have "\<exists>n users. Stats m = (n, n, length (mgSlots m), users)"
    by (simp add: Stats_def card_bridges [OF ok])
  moreover have "\<forall>si \<in> set (ListSlots m). siStatus si \<in> {''free'', ''dead'', ''busy''} \<and>
      (siStatus si = ''busy'' \<longleftrightarrow> (\<exists>ch b. gget (mgActive m) ch = Some b \<and> cbSlot b = siIndex si)) \<and>
      (\<forall>ch b. gget (mgActive m) ch = Some b \<and> cbSlot b = siIndex si \<longrightarrow> siChannelID si = ch)"
  proof
    fix si assume "si \<in> set (ListSlots m)"
    then obtain i where i: "si = slotStatus m i" "i < length (mgSlots m)" by (auto simp: ListSlots_def)
    show "siStatus si \<in> {''free'', ''dead'', ''busy''} \<and>
      (siStatus si = ''busy'' \<longleftrightarrow> (\<exists>ch b. gget (mgActive m) ch = Some b \<and> cbSlot b = siIndex si)) \<and>
      (\<forall>ch b. gget (mgActive m) ch = Some b \<and> cbSlot b = siIndex si \<longrightarrow> siChannelID si = ch)"
      unfolding i(1) status(1,3) busy [OF i(2)] using status(2) [of i] calculation(1) by blast
  qed
  moreover have "map siIndex (ListSlots m) = [0..<length (mgSlots m)]"
    by (simp add: ListSlots_def status(1) comp_def)
  ultimately show ?thesis using s(1) by blast
qed

theorem bridge_stats_agree_witness:
  "\<exists>m h'. session calmEnv demoSetup [AddBotEv ''t'', DeathEv 0] [] = Some (m, h') \<and> (\<exists>n users. Stats m = (n, n, length (mgSlots m), users))"
  using bridge_stats_agree [OF demoSetup_ok [of "[AddBotEv ''t'', DeathEv 0]"], of "[]"] by (simp add: eventOK_def) blast

end
