(* ===== verification/SlotPool.thy ===== *)
theory SlotPool
  imports BridgeProps
begin

text \<open>
  The sidecar slots as the rest of the bridge should think of them: a pool from which channels lease slots.
  The manager's code for starting, stopping and losing a bridge implements it.
\<close>

section \<open>The abstract pool\<close>

record pool =
  plLease :: "u64 \<Rightarrow> nat option"
  plFree :: "nat set"
  plDead :: "nat set"

text \<open>A channel with a room leases the least free slot, once.\<close>

definition poolAcquire :: "bool \<Rightarrow> u64 \<Rightarrow> pool \<Rightarrow> pool" where
  "poolAcquire known ch p =
     (if plLease p ch \<noteq> None \<or> \<not> known \<or> plFree p = {} then p
      else p\<lparr>plLease := (plLease p)(ch \<mapsto> Min (plFree p)), plFree := plFree p - {Min (plFree p)}\<rparr>)"

definition poolRelease :: "u64 \<Rightarrow> pool \<Rightarrow> pool" where
  "poolRelease ch p =
     (case plLease p ch of
        None \<Rightarrow> p
      | Some i \<Rightarrow> p\<lparr>plLease := (plLease p)(ch := None), plFree := insert i (plFree p)\<rparr>)"

text \<open>A slot that dies leaves the pool for good, and its lease ends.\<close>

definition poolKill :: "nat \<Rightarrow> pool \<Rightarrow> pool" where
  "poolKill i p = p\<lparr>plLease := (\<lambda>ch. if plLease p ch = Some i then None else plLease p ch),
     plFree := plFree p - {i}, plDead := insert i (plDead p)\<rparr>"

definition poolGrow :: "nat \<Rightarrow> pool \<Rightarrow> pool" where
  "poolGrow i p = p\<lparr>plFree := insert i (plFree p)\<rparr>"

section \<open>The pool of a manager\<close>

definition slotsWith :: "u64 \<Rightarrow> manager \<Rightarrow> nat set" where
  "slotsWith c m = {i. i < length (mgSlots m) \<and> slChannel (mgSlots m ! i) = c}"

definition absPool :: "manager \<Rightarrow> pool" where
  "absPool m = \<lparr>plLease = (\<lambda>ch. map_option cbSlot (gget (mgActive m) ch)),
     plFree = slotsWith freeCh m, plDead = slotsWith deadCh m\<rparr>"

lemma slotsWith_frame [simp]:
  "slotsWith c (m\<lparr>mgActive := a\<rparr>) = slotsWith c m" "slotsWith c (installBridge ch b m) = slotsWith c m"
  by (simp_all add: slotsWith_def installBridge_def)

lemma slotsWith_set:
  "i < length (mgSlots m) \<Longrightarrow>
   slotsWith c (setSlotChannel i d m) = (if c = d then insert i (slotsWith c m) else slotsWith c m - {i})"
  by (auto simp: slotsWith_def slot_setSlotChannel)

lemma freeSlot_Min:
  "freeSlot (mgSlots m) = (if slotsWith freeCh m = {} then None else Some (Min (slotsWith freeCh m)))"
proof (cases "freeSlot (mgSlots m)")
  case None
  then have "slotsWith freeCh m = {}" by (auto simp: freeSlot_def find_None_iff slotsWith_def)
  then show ?thesis using None by simp
next
  case (Some i)
  have i: "i \<in> slotsWith freeCh m" using freeSlot_Some [OF Some] by (simp add: slotsWith_def)
  have "i \<le> j" if "j \<in> slotsWith freeCh m" for j
  proof (rule ccontr)
    assume "\<not> i \<le> j"
    then show False
      using Some that by (auto simp: freeSlot_def find_Some_iff slotsWith_def)
  qed
  then have "Min (slotsWith freeCh m) = i" using i by (intro Min_eqI) (auto simp: slotsWith_def)
  then show ?thesis using Some i by auto
qed

section \<open>Refinement\<close>

lemma absPool_start:
  assumes "bridgeInv D m"
  shows "goes (\<lambda>s. absPool (fst s) = poolAcquire (ggetz '''' (mgChannelRooms m) ch \<noteq> '''') ch (absPool m))
    (startBridge env ch (m, h))"
proof -
  have w: "wired m" using assms by (simp add: bridgeInv_def)
  have ch: "ch \<noteq> freeCh \<and> ch \<noteq> deadCh" if "ggetz '''' (mgChannelRooms m) ch \<noteq> ''''"
    using assms that by (auto simp: bridgeInv_def roomsSane_def ggetz_def)
  have "absPool m' = poolAcquire True ch (absPool m)"
    if "started ch i m m'" "freeSlot (mgSlots m) = Some i" "gget (mgActive m) ch = None"
      "ggetz '''' (mgChannelRooms m) ch \<noteq> ''''" for i m'
  proof -
    have "\<exists>b. cbSlot b = i \<and> m' = installBridge ch b (setSlotChannel i ch m)"
      using that(1) unfolding started_def by blast
    then obtain b where b: "cbSlot b = i" "m' = installBridge ch b (setSlotChannel i ch m)" by blast
    have i: "i < length (mgSlots m)" "slChannel (mgSlots m ! i) = freeCh" using freeSlot_Some [OF that(2)] by simp_all
    have free: "slotsWith freeCh m \<noteq> {}" "Min (slotsWith freeCh m) = i"
      using that(2) by (auto simp: freeSlot_Min split: if_splits)
    have "i \<notin> slotsWith deadCh m" using i by (auto simp: slotsWith_def)
    then show ?thesis
      using ch [OF that(4)] free that(3) i b by (auto simp: absPool_def poolAcquire_def slotsWith_set fun_eq_iff)
  qed
  then show ?thesis
    by (intro goes_mono [OF startBridge_spec [OF w]])
      (auto simp: freeSlot_Min absPool_def poolAcquire_def split: if_splits option.splits)
qed

lemma absPool_stop:
  assumes "bridgeInv D m"
  shows "goes (\<lambda>s. absPool (fst s) = poolRelease ch (absPool m)) (stopBridgeForChannel env ch (m, h))"
proof -
  have ok: "slotsOK m" "piecesOK m" using assms by (simp_all add: bridgeInv_def)
  have "absPool (snd (stopTake ch m)) = poolRelease ch (absPool m)"
  proof (cases "gget (mgActive m) ch")
    case None
    then show ?thesis by (simp add: stopTake_def poolRelease_def absPool_def)
  next
    case (Some b)
    note d = slotsOK_D [OF ok(1) Some]
    have "cbSlot b \<notin> slotsWith deadCh m" using d by (auto simp: slotsWith_def)
    then show ?thesis
      using d Some by (auto simp: stopTake_ok [OF ok(1) Some] poolRelease_def absPool_def slotsWith_set fun_eq_iff)
  qed
  then show ?thesis by (intro goes_mono [OF stopBridge_spec [OF ok(2)]]) auto
qed

lemma deathMark_eq:
  assumes "slotsOK m"
  shows "deathMark env idx (m, h) =
    (let inside = (0 \<le> idx \<and> nat idx < length (mgSlots m)) in
     if inside \<and> slChannel (mgSlots m ! nat idx) = deadCh then None
     else let c = (if inside \<and> busySlot (mgSlots m ! nat idx) then slChannel (mgSlots m ! nat idx) else 0);
              s1 = (if c \<noteq> 0 then cancelTimer c (m, h) else (m, h))
          in Some (c, (if inside then setSlotChannel (nat idx) deadCh (fst s1) else fst s1), snd s1))"
  by (auto simp: deathMark_def find_on_slot [OF assms] Let_def split: prod.split)

lemma slotsWith_cancel [simp]: "slotsWith d (fst (cancelTimer c s)) = slotsWith d (fst s)"
  by (simp add: slotsWith_def)

lemma absPool_cancel [simp]: "absPool (fst (cancelTimer c s)) = absPool (fst s)"
  by (simp add: absPool_def slotsWith_def)

lemma absPool_death:
  assumes "bridgeInv D m"
  shows "goes (\<lambda>s. absPool (fst s) =
      (if 0 \<le> idx \<and> nat idx < length (mgSlots m) then poolKill (nat idx) (absPool m) else absPool m))
    (HandleSlotDeath env idx (m, h))"
proof -
  have ok: "slotsOK m" "piecesOK m" using assms by (simp_all add: bridgeInv_def)
  let ?i = "nat idx"
  have lease: "plLease (absPool m) ch = Some i \<longleftrightarrow> i < length (mgSlots m) \<and> busySlot (mgSlots m ! i) \<and> slChannel (mgSlots m ! i) = ch" for ch i
    using slotsOK_busy [OF ok(1), of i] slotsOK_D [OF ok(1), of ch] by (auto simp: absPool_def busySlot_def)
  show ?thesis
  proof (cases "0 \<le> idx \<and> ?i < length (mgSlots m)")
    case False
    then show ?thesis by (auto simp: HandleSlotDeath_def deathMark_eq [OF ok(1)] Let_def)
  next
    case True
    show ?thesis
    proof (cases "busySlot (mgSlots m ! ?i)")
      case busy: True
      let ?c = "slChannel (mgSlots m ! ?i)"
      let ?m1 = "setSlotChannel ?i deadCh (fst (cancelTimer ?c (m, h)))"
      have c: "?c \<noteq> 0" "?c \<noteq> deadCh" using busy by (simp_all add: busySlot_def freeCh_def)
      obtain b where b: "gget (mgActive m) ?c = Some b" "cbSlot b = ?i" using slotsOK_busy [OF ok(1) _ busy] True by blast
      have "snd (stopTake ?c ?m1) = ?m1\<lparr>mgActive := gdel ?c (mgActive m)\<rparr>"
        using b True by (simp add: stopTake_def setSlotChannel_def Let_def)
      moreover have "absPool (?m1\<lparr>mgActive := gdel ?c (mgActive m)\<rparr>) = poolKill ?i (absPool m)"
      proof -
        have "map_option cbSlot (gget (mgActive m) ch) \<noteq> Some ?i" if "ch \<noteq> ?c" for ch
          using lease [of ch ?i] that by (auto simp: absPool_def)
        then show ?thesis
          using True c by (auto simp: absPool_def poolKill_def slotsWith_set fun_eq_iff b)
      qed
      ultimately have "absPool (snd (stopTake ?c ?m1)) = poolKill ?i (absPool m)" by simp
      moreover have "piecesOK ?m1" using bridgeInv_cancel [of D "(m, h)" ?c] assms by (simp add: bridgeInv_def)
      ultimately have "goes (\<lambda>s. absPool (fst s) = poolKill ?i (absPool m)) (stopBridgeForChannel env ?c (?m1, h1))" for h1
        by (intro goes_mono [OF stopBridge_spec]) auto
      then show ?thesis using True busy c by (simp add: HandleSlotDeath_def deathMark_eq [OF ok(1)] Let_def)
    next
      case idle: False
      have no: "plLease (absPool m) ch \<noteq> Some ?i" for ch using lease idle by simp
      have "absPool (setSlotChannel ?i deadCh m) = poolKill ?i (absPool m)"
        using True no by (auto simp: absPool_def poolKill_def slotsWith_set fun_eq_iff)
      moreover have "absPool m = poolKill ?i (absPool m)" if "slChannel (mgSlots m ! ?i) = deadCh"
        using True no that by (auto simp: absPool_def poolKill_def slotsWith_def fun_eq_iff)
      ultimately show ?thesis using True idle by (simp add: HandleSlotDeath_def deathMark_eq [OF ok(1)] Let_def)
    qed
  qed
qed

lemma absPool_dbid:
  "absPool (m\<lparr>mgStore := db, mgSlots := (mgSlots m)[i := (mgSlots m ! i)\<lparr>slBotDBID := d\<rparr>]\<rparr>) = absPool m"
  by (cases "i < length (mgSlots m)") (auto simp: absPool_def slotsWith_def nth_list_update list_update_beyond)

lemma absPool_add:
  "slChannel sl = freeCh \<Longrightarrow> absPool (addSlot sl m) = poolGrow (length (mgSlots m)) (absPool m)"
  by (auto simp: absPool_def slotsWith_def addSlot_def poolGrow_def nth_append less_Suc_eq)

lemma absPool_persist [simp]: "absPool (fst (persistBot env token i s)) = absPool (fst s)"
proof -
  have "absPool (m\<lparr>mgStore := db\<rparr>) = absPool m" for m db by (simp add: absPool_def slotsWith_def)
  then show ?thesis by (auto simp: persistBot_def absPool_dbid split: prod.split option.split sum.split)
qed

lemma absPool_AddBot:
  "absPool (fst (snd (AddBot env token (m, h)))) =
     (case fst (AddBot env token (m, h)) of Inl e \<Rightarrow> absPool m | Inr i \<Rightarrow> poolGrow (length (mgSlots m)) (absPool m))"
proof -
  have loops: "absPool (m\<lparr>mgReadLoops := r\<rparr>) = absPool m" for m r by (simp add: absPool_def slotsWith_def)
  have new: "absPool (fst (persistBot env token i (addSlot \<lparr>slConn = Some c, slIndex = length (mgSlots m), slPrimary = False,
      slToken = maskToken token, slBotDBID = 0, slChannel = freeCh\<rparr> m, h'))) = poolGrow (length (mgSlots m)) (absPool m)" for c i h'
    by (simp add: absPool_add)
  show ?thesis
    by (auto simp: AddBot_def Let_def loops split: sum.split prod.split) (use new in \<open>metis fst_conv\<close>)+
qed

text \<open>
  C4: In every session the manager's slots behave as a lease pool. Starting a bridge leases the least free slot
  to a channel that has a room and no lease, and does nothing otherwise; stopping gives the slot back; a dying
  sidecar takes its slot out of the pool with its lease, and only that one; a hot-added bot is a new free slot.
\<close>

theorem slot_pool_refinement:
  assumes "sessionOK env su evs" and "session env su evs h0 = Some (m, h)"
  shows "goes (\<lambda>s. absPool (fst s) = poolAcquire (ggetz '''' (mgChannelRooms m) ch \<noteq> '''') ch (absPool m))
      (startBridge env ch (m, h)) \<and>
    goes (\<lambda>s. absPool (fst s) = poolRelease ch (absPool m)) (stopBridgeForChannel env ch (m, h)) \<and>
    goes (\<lambda>s. absPool (fst s) =
      (if 0 \<le> idx \<and> nat idx < length (mgSlots m) then poolKill (nat idx) (absPool m) else absPool m))
      (HandleSlotDeath env idx (m, h)) \<and>
    absPool (fst (snd (AddBot env token (m, h)))) =
      (case fst (AddBot env token (m, h)) of Inl e \<Rightarrow> absPool m | Inr i \<Rightarrow> poolGrow (length (mgSlots m)) (absPool m))"
proof -
  obtain m1 h1 where "session env su evs h0 = Some (m1, h1)" "bridgeInv {} m1" by (rule session_inv [OF assms(1)])
  then have "bridgeInv {} m" using assms(2) by simp
  then show ?thesis using absPool_start absPool_stop absPool_death absPool_AddBot by blast
qed

theorem slot_pool_refinement_witness:
  "\<exists>m h. session calmEnv demoSetup [DeathEv 0] [] = Some (m, h) \<and>
     goes (\<lambda>s. absPool (fst s) = poolRelease 5 (absPool m)) (stopBridgeForChannel calmEnv 5 (m, h))"
proof -
  have ok: "sessionOK calmEnv demoSetup [DeathEv 0]" by (rule demoSetup_ok) (simp add: eventOK_def)
  obtain m h where "session calmEnv demoSetup [DeathEv 0] [] = Some (m, h)" by (rule session_inv [OF ok])
  then show ?thesis using slot_pool_refinement [OF ok, of "[]" m h 5] by blast
qed

end
