(* ===== verification/RoomLife.thy ===== *)
theory RoomLife
  imports BridgeProps
begin

text \<open>
  The Matrix room of a channel: created once, linked in both directions, announced by a state event from which
  the bridge finds the room again.
\<close>

section \<open>What a call adds to the history\<close>

definition createsRoom :: "effect \<Rightarrow> bool" where
  "createsRoom e = (case e of Hs c \<Rightarrow> (case c of HsCreateRoom _ _ _ \<Rightarrow> True | _ \<Rightarrow> False) | _ \<Rightarrow> False)"

definition grows :: "history \<Rightarrow> history \<Rightarrow> bool" where
  "grows h h' \<longleftrightarrow> (\<exists>hs. h' = h @ hs \<and> list_all (\<lambda>e. \<not> createsRoom e) hs)"

named_theorems growing

lemma grows_refl [growing]: "grows h h"
  by (simp add: grows_def)

lemma grows_one [growing]: "\<not> createsRoom e \<Longrightarrow> grows h (h @ [e])"
  by (simp add: grows_def)

lemma grows_trans: "grows h h1 \<Longrightarrow> grows h1 h2 \<Longrightarrow> grows h h2"
  by (auto simp: grows_def)

lemma grows_snoc: "grows h h1 \<Longrightarrow> \<not> createsRoom e \<Longrightarrow> grows h (h1 @ [e])"
  by (rule grows_trans [OF _ grows_one])

lemma creates_simps [simp]:
  "\<not> createsRoom (Hs (HsRegister u))" "\<not> createsRoom (Hs (HsJoinedRooms u))" "\<not> createsRoom (Hs (HsRoomState u r))"
  "\<not> createsRoom (Hs (HsStateEvent u r t k))" "\<not> createsRoom (Hs (HsSendState u r t k c))" "\<not> createsRoom (DbExec q a)"
  "createsRoom (Hs (HsCreateRoom u n t))"
  by (simp_all add: createsRoom_def)

lemma findGuildSpace_grows: "findGuildSpace env u k rooms h = (r, h') \<Longrightarrow> grows h h'"
proof (induction env u k rooms h rule: findGuildSpace.induct)
  case (2 env u k roomID rooms h)
  let ?e1 = "Hs (HsStateEvent u roomID ''m.bridge'' k)"
  let ?e2 = "Hs (HsStateEvent u roomID ''m.room.create'' '''')"
  have g1: "grows h (h @ [?e1])" and g2: "grows h ((h @ [?e1]) @ [?e2])" by (simp_all add: grows_def)
  show ?case
  proof (cases "askJson env h ?e1")
    case (Inl e)
    then show ?thesis using 2 grows_trans [OF g1] by (auto simp: Let_def)
  next
    case (Inr x)
    show ?thesis
    proof (cases "askJson env (h @ [?e1]) ?e2")
      case (Inl e)
      then show ?thesis using 2 Inr grows_trans [OF g2] by (auto simp: Let_def)
    next
      case (Inr c)
      then show ?thesis using 2 \<open>askJson env h ?e1 = Inr x\<close> g2 grows_trans [OF g2]
        by (cases "isSpace c") (auto simp: Let_def)
    qed
  qed
qed (simp add: growing)

definition keepsRooms :: "mst \<Rightarrow> mst \<Rightarrow> bool" where
  "keepsRooms s s' \<longleftrightarrow> grows (snd s) (snd s') \<and> mgChannelRooms (fst s') = mgChannelRooms (fst s) \<and>
     mgRoomChannels (fst s') = mgRoomChannels (fst s) \<and> mgSignaller (fst s') = mgSignaller (fst s)"

lemma keepsRooms_trans: "keepsRooms s s1 \<Longrightarrow> keepsRooms s1 s2 \<Longrightarrow> keepsRooms s s2"
  by (auto simp: keepsRooms_def intro: grows_trans)

lemma keepsRooms_refl [simp]: "keepsRooms s s"
  by (simp add: keepsRooms_def growing)

lemma discoverGuildSpace_keeps:
  assumes "mgSignaller m \<noteq> None"
  shows "goes (\<lambda>(r, s). keepsRooms (m, h) s) (discoverGuildSpace env (m, h))"
proof -
  have "grows h h'" if "findGuildSpace env u k rooms (h @ [Hs (HsJoinedRooms u')]) = (r, h')" for u k rooms r h' u'
    using findGuildSpace_grows [OF that] by (rule grows_trans [rotated]) (simp add: growing)
  then show ?thesis
    using assms by (auto simp: discoverGuildSpace_def Let_def keepsRooms_def growing split: sum.split prod.split option.split)
qed

lemma categoryChild_keeps: "keepsRooms s (categoryChild env u child s)"
  by (cases s) (auto simp: categoryChild_def Let_def keepsRooms_def growing split: sum.split option.split)

lemma fold_categoryChild_keeps: "keepsRooms s (fold (categoryChild env u) cs s)"
proof (induction cs arbitrary: s)
  case (Cons c cs)
  show ?case using keepsRooms_trans [OF categoryChild_keeps Cons.IH] by simp
qed simp

lemma discoverCategorySpaces_keeps:
  assumes "mgSignaller m \<noteq> None"
  shows "goes (keepsRooms (m, h)) (discoverCategorySpaces env (m, h))"
proof -
  have "keepsRooms (m, h) (m, h @ [Hs (HsRoomState u r)])" for u r by (simp add: keepsRooms_def growing)
  moreover from this have "keepsRooms (m, h) (fold (categoryChild env u') cs (m, h @ [Hs (HsRoomState u r)]))" for u r u' cs
    by (rule keepsRooms_trans [OF _ fold_categoryChild_keeps])
  ultimately show ?thesis
    using assms by (auto simp: discoverCategorySpaces_def Let_def split: sum.split option.split)
qed

lemma addToGuildSpace_keeps:
  assumes sg: "mgSignaller m \<noteq> None"
  shows "goes (keepsRooms (m, h)) (addToGuildSpace env room cat (m, h))"
proof -
  obtain r m1 h1 where d: "discoverGuildSpace env (m, h) = Some (r, m1, h1)" "keepsRooms (m, h) (m1, h1)"
    using discoverGuildSpace_keeps [OF sg, of h env] by (auto simp: goes_iff)
  have sg1: "mgSignaller m1 \<noteq> None" using d(2) sg by (simp add: keepsRooms_def)
  have "goes (keepsRooms (m, h)) (if glen (mgCategorySpaces m1) = 0 then discoverCategorySpaces env (m1, h1) else Some (m1, h1))"
    using discoverCategorySpaces_keeps [OF sg1, of h1 env] keepsRooms_trans [OF d(2)] d(2)
    by (auto elim: goes_mono simp del: glen_eq_0)
  then obtain m2 h2 where c: "(if glen (mgCategorySpaces m1) = 0 then discoverCategorySpaces env (m1, h1) else Some (m1, h1)) = Some (m2, h2)"
      "keepsRooms (m, h) (m2, h2)"
    unfolding goes_iff by (metis prod.collapse)
  obtain sg2 where "mgSignaller m2 = Some sg2" using c(2) sg by (auto simp: keepsRooms_def)
  moreover have "keepsRooms (m, h) (m2, h2 @ [Hs (HsSendState u t y k j)])" for u t y k j
    using c(2) by (simp add: keepsRooms_def grows_snoc)
  moreover have "keepsRooms (m, h) (m2, (h2 @ [Hs (HsSendState u t y k j)]) @ [Hs (HsSendState u' t' y' k' j')])" for u t y k j u' t' y' k' j'
    using c(2) by (simp only: keepsRooms_def fst_conv snd_conv) (simp add: grows_snoc del: append_assoc)
  ultimately show ?thesis
    unfolding addToGuildSpace_def d(1) Option.bind.simps case_prod_conv c(1)
    using d(2) by (auto simp: Let_def callErr_def split: sum.split prod.split)
qed

lemma persistRoom_keeps: "keepsRooms s (persistRoom env r s)"
proof (cases s)
  case (Pair m h)
  have "grows h h'" if "storeUpsertRoom env r (db, h) = (e, db1, h')" for db e db1 h'
    using that by (auto simp: storeUpsertRoom_def callErr_def growing split: option.splits)
  then show ?thesis by (auto simp: Pair persistRoom_def keepsRooms_def growing split: option.split prod.split)
qed

section \<open>Properties\<close>

text \<open>
  C24: A channel whose room is known gets that room without any call. For an unknown channel exactly one room is
  created; when that fails nothing changes, and when it succeeds channel and room are linked in both directions,
  the room carries the bridge's state event for the channel, and every later request returns the same room
  without a call.
\<close>

theorem room_created_once:
  assumes sg: "mgSignaller m = Some sg"
  shows "\<exists>r m' h'. ensureMatrixRoom env ch info (m, h) = Some (r, m', h') \<and>
     (case gget (mgChannelRooms m) ch of
        Some room \<Rightarrow> r = Inr room \<and> m' = m \<and> h' = h
      | None \<Rightarrow> (\<exists>hs. h' = h @ hs \<and> length (filter createsRoom hs) = 1 \<and>
          (case r of
             Inl e \<Rightarrow> m' = m
           | Inr room \<Rightarrow>
               gget (mgChannelRooms m') ch = Some room \<and> gget (mgRoomChannels m') room = Some ch \<and>
               Hs (HsSendState (botMXID sg) room ''m.bridge'' (bridgePrefix m @ formatUint ch) (bridgeContent m ch info)) \<in> set hs \<and>
               (\<forall>env2 info2 h2. ensureMatrixRoom env2 ch info2 (m', h2) = Some (Inr room, m', h2)))))"
proof (cases "gget (mgChannelRooms m) ch")
  case (Some room)
  then show ?thesis by (simp add: ensureMatrixRoom_def)
next
  case None
  let ?usr = "botMXID sg"
  let ?reg = "Hs (HsRegister ?usr)"
  define mk where "mk = Hs (HsCreateRoom ?usr (if ciName info = '''' then ''Voice '' @ formatUint ch else ciName info)
      (''Discord voice channel '' @ formatUint ch))"
  have mk: "createsRoom mk" by (simp add: mk_def)
  let ?h2 = "h @ [?reg, mk]"
  show ?thesis
  proof (cases "askStr env (h @ [?reg]) mk")
    case (Inl e)
    have "ensureMatrixRoom env ch info (m, h) = Some (Inl (wrapErr ''create room'' e), m, ?h2)"
      unfolding ensureMatrixRoom_def case_prod_conv None option.case sg Let_def callErr_def callStr_def mk_def [symmetric] Inl sum.case
      by simp
    then show ?thesis using mk None by (intro exI conjI) (auto intro!: exI [of _ "[?reg, mk]"])
  next
    case (Inr room)
    let ?row = "\<lparr>rmDiscordChannel = ch, rmMatrixRoom = room, rmName = ciName info, rmGuildID = mgGuildID m,
        rmCategoryID = ciCategory info\<rparr>"
    obtain m3 h3 where p: "persistRoom env ?row (linkRoom ch room m, ?h2) = (m3, h3)" by fastforce
    have k3: "keepsRooms (linkRoom ch room m, ?h2) (m3, h3)" using persistRoom_keeps [of "(linkRoom ch room m, ?h2)" env ?row] by (simp add: p)
    have same: "bridgePrefix m3 = bridgePrefix m" "bridgeContent m3 = bridgeContent m"
      using p by (auto simp: persistRoom_def bridgePrefix_def bridgeKey_def bridgeContent_def [abs_def] linkRoom_def split: option.splits prod.splits)
    let ?ev = "\<lambda>t. Hs (HsSendState ?usr room t (bridgePrefix m @ formatUint ch) (bridgeContent m ch info))"
    let ?h5 = "(h3 @ [?ev ''m.bridge'']) @ [?ev ''uk.half-shot.bridge'']"
    have "mgSignaller m3 \<noteq> None" using k3 sg by (simp add: keepsRooms_def linkRoom_def)
    then obtain m6 h6 where a: "addToGuildSpace env room (ciCategory info) (m3, ?h5) = Some (m6, h6)" "keepsRooms (m3, ?h5) (m6, h6)"
      using addToGuildSpace_keeps [of m3 ?h5 env room "ciCategory info"] by (auto simp: goes_iff simp del: append_assoc)
    have p': "persistRoom env ?row (linkRoom ch room m, (h @ [?reg]) @ [mk]) = (m3, h3)" using p by simp
    have run: "ensureMatrixRoom env ch info (m, h) = Some (Inr room, m6, h6)"
      unfolding ensureMatrixRoom_def case_prod_conv None option.case sg Let_def callErr_def callStr_def mk_def [symmetric] Inr
        sum.case p' snd_conv a(1)
      by simp
    obtain g1 where g1: "h3 = ?h2 @ g1" "list_all (\<lambda>e. \<not> createsRoom e) g1" using k3 by (auto simp: keepsRooms_def grows_def)
    obtain g2 where g2: "h6 = ?h5 @ g2" "list_all (\<lambda>e. \<not> createsRoom e) g2" using a(2) by (auto simp: keepsRooms_def grows_def)
    let ?hs = "[?reg, mk] @ g1 @ [?ev ''m.bridge'', ?ev ''uk.half-shot.bridge''] @ g2"
    have "filter createsRoom g1 = []" "filter createsRoom g2 = []"
      using g1(2) g2(2) by (auto simp: filter_empty_conv list_all_iff)
    then have one: "length (filter createsRoom ?hs) = 1" using mk by simp
    have links: "gget (mgChannelRooms m6) ch = Some room" "gget (mgRoomChannels m6) room = Some ch"
      using k3 a(2) by (simp_all add: keepsRooms_def linkRoom_def)
    have "h6 = h @ ?hs" using g1(1) g2(1) by simp
    then show ?thesis
      using run one links None
      by (intro exI [of _ "Inr room"] exI [of _ m6] exI [of _ h6]) (auto simp: ensureMatrixRoom_def intro!: exI [of _ ?hs])
  qed
qed

theorem room_created_once_witness:
  "\<exists>r m' h'. ensureMatrixRoom calmEnv 5 \<lparr>ciName = ''General'', ciCategory = 0\<rparr>
     (NewManager [] (Some (suSignaller demoSetup)) None (suLkConfig demoSetup) ''1'' ''x'' ''jwt'', []) = Some (r, m', h')"
  using room_created_once [of "NewManager [] (Some (suSignaller demoSetup)) None (suLkConfig demoSetup) ''1'' ''x'' ''jwt''"
      "suSignaller demoSetup" calmEnv 5 "\<lparr>ciName = ''General'', ciCategory = 0\<rparr>" "[]"]
  by (simp add: NewManager_def) blast



end
