(* ===== verification/BridgeCalls.thy ===== *)
theory BridgeCalls
  imports BridgeProps
begin

text \<open>
  What the manager does when Matrix users join and leave calls: who is where afterwards, which bridges run, and
  the five seconds a bridge survives its last user.
\<close>

section \<open>Stopping some bridges\<close>

lemma stopTake_active:
  "gget (mgActive (snd (stopTake ch m))) c = (if c = ch then None else gget (mgActive m) c)"
  by (simp add: stopTake_def setSlotChannel_def Let_def split: option.split)

lemma stopTake_slots:
  assumes "slotsOK m"
  shows "length (mgSlots (snd (stopTake ch m))) = length (mgSlots m)"
    and "i < length (mgSlots m) \<Longrightarrow> slChannel (mgSlots (snd (stopTake ch m)) ! i) =
      (if slChannel (mgSlots m ! i) = ch \<and> ch \<noteq> deadCh then freeCh else slChannel (mgSlots m ! i))"
proof -
  show "length (mgSlots (snd (stopTake ch m))) = length (mgSlots m)"
    by (simp add: stopTake_def setSlotChannel_def Let_def split: option.split)
  assume i: "i < length (mgSlots m)"
  show "slChannel (mgSlots (snd (stopTake ch m)) ! i) =
      (if slChannel (mgSlots m ! i) = ch \<and> ch \<noteq> deadCh then freeCh else slChannel (mgSlots m ! i))"
  proof (cases "gget (mgActive m) ch")
    case None
    then have "slChannel (mgSlots m ! i) = ch \<Longrightarrow> ch = freeCh \<or> ch = deadCh"
      using slotsOK_busy [OF assms i] by (auto simp: busySlot_def)
    then show ?thesis using None by (auto simp: stopTake_def)
  next
    case (Some b)
    note d = slotsOK_D [OF assms Some]
    have own: "i = cbSlot b" if "slChannel (mgSlots m ! i) = ch"
    proof -
      have "busySlot (mgSlots m ! i)" unfolding busySlot_def that using d(1,2) by blast
      then show ?thesis using slotsOK_busy [OF assms i] Some unfolding that by auto
    qed
    have sl: "slChannel (mgSlots (snd (stopTake ch m)) ! i) = (if i = cbSlot b then freeCh else slChannel (mgSlots m ! i))"
      using d(4) by (simp add: stopTake_ok [OF assms Some] slot_setSlotChannel)
    show ?thesis
    proof (cases "i = cbSlot b")
      case True
      then show ?thesis using sl d(2,5) by simp
    next
      case False
      then show ?thesis using sl own by auto
    qed
  qed
qed

text \<open>The manager after stopping the channels \<open>cs\<close>.\<close>

definition stoppedAll :: "u64 list \<Rightarrow> manager \<Rightarrow> manager \<Rightarrow> bool" where
  "stoppedAll cs m m' \<longleftrightarrow>
     (\<forall>c. gget (mgActive m') c = (if c \<in> set cs then None else gget (mgActive m) c)) \<and>
     length (mgSlots m') = length (mgSlots m) \<and>
     (\<forall>i < length (mgSlots m). slChannel (mgSlots m' ! i) =
        (if slChannel (mgSlots m ! i) \<in> set cs - {deadCh} then freeCh else slChannel (mgSlots m ! i))) \<and>
     mgMatrixUsers m' = mgMatrixUsers m \<and> mgStopTimers m' = mgStopTimers m \<and> mgArmed m' = mgArmed m \<and>
     mgChannelRooms m' = mgChannelRooms m \<and> mgRoomChannels m' = mgRoomChannels m \<and> mgSignaller m' = mgSignaller m"

lemma goes_stoppedAll:
  assumes "bridgeInv D (fst s)"
  shows "goes (\<lambda>s1. bridgeInv D (fst s1) \<and> stoppedAll cs (fst s) (fst s1)) (foldM (stopBridgeForChannel env) cs s)"
  using assms
proof (induction cs arbitrary: s)
  case Nil
  then show ?case by (simp add: stoppedAll_def)
next
  case (Cons c cs)
  obtain m h where s: "s = (m, h)" by (cases s)
  have inv: "bridgeInv D m" using Cons.prems by (simp add: s)
  have ok: "slotsOK m" "piecesOK m" using inv by (simp_all add: bridgeInv_def)
  note st = stopTake_slots [OF ok(1), where ch = c]
  show ?case
    unfolding s foldM.simps goes_bind
  proof (rule goes_mono [OF stopBridge_spec [OF ok(2), of c env h]])
    fix s1 :: mst assume "case s1 of (m', h') \<Rightarrow> m' = snd (stopTake c m)"
    then have m1: "fst s1 = snd (stopTake c m)" by (auto split: prod.splits)
    then have "bridgeInv D (fst s1)" using bridgeInv_stop [OF inv] by simp
    then have "goes (\<lambda>s2. bridgeInv D (fst s2) \<and> stoppedAll cs (fst s1) (fst s2)) (foldM (stopBridgeForChannel env) cs s1)"
      by (rule Cons.IH)
    then show "goes (\<lambda>s2. bridgeInv D (fst s2) \<and> stoppedAll (c # cs) (fst (m, h)) (fst s2)) (foldM (stopBridgeForChannel env) cs s1)"
      by (rule goes_mono) (auto simp: stoppedAll_def m1 stopTake_active st)
  qed
qed

section \<open>Joining\<close>

lemma leaveOther_stop:
  "fst (leaveOther user ch c (stop, s)) = stop @ (if c \<noteq> ch \<and> gget (usersOf (fst s) c) user \<noteq> None then [c] else [])"
  by (cases s) (simp add: leaveOther_def Let_def)

lemma leaveOther_frame:
  "mgActive (fst (snd (leaveOther user ch c (stop, s)))) = mgActive (fst s)"
  "mgSlots (fst (snd (leaveOther user ch c (stop, s)))) = mgSlots (fst s)"
  "mgChannelRooms (fst (snd (leaveOther user ch c (stop, s)))) = mgChannelRooms (fst s)"
  "mgSignaller (fst (snd (leaveOther user ch c (stop, s)))) = mgSignaller (fst s)"
  "mgRoomChannels (fst (snd (leaveOther user ch c (stop, s)))) = mgRoomChannels (fst s)"
  by (cases s; simp add: leaveOther_def Let_def setUsers_def)+

lemma fold_leaveOther_stop:
  assumes "bridgeInv D (fst s)" and "distinct cs"
  shows "fst (fold (leaveOther user ch) cs (stop, s)) = stop @ filter (\<lambda>c. c \<noteq> ch \<and> gget (usersOf (fst s) c) user \<noteq> None) cs \<and>
    mgActive (fst (snd (fold (leaveOther user ch) cs (stop, s)))) = mgActive (fst s) \<and>
    mgSlots (fst (snd (fold (leaveOther user ch) cs (stop, s)))) = mgSlots (fst s) \<and>
    mgChannelRooms (fst (snd (fold (leaveOther user ch) cs (stop, s)))) = mgChannelRooms (fst s) \<and>
    mgSignaller (fst (snd (fold (leaveOther user ch) cs (stop, s)))) = mgSignaller (fst s) \<and>
    mgRoomChannels (fst (snd (fold (leaveOther user ch) cs (stop, s)))) = mgRoomChannels (fst s)"
  using assms
proof (induction cs arbitrary: stop s)
  case (Cons c cs)
  obtain stop1 s1 where e: "leaveOther user ch c (stop, s) = (stop1, s1)" by (cases "leaveOther user ch c (stop, s)")
  note k = leaveOther_keeps [OF Cons.prems(1), of user ch c stop, unfolded e snd_conv]
  note fr = leaveOther_frame [of user ch c stop s, unfolded e snd_conv]
  have "filter (\<lambda>c. c \<noteq> ch \<and> gget (usersOf (fst s1) c) user \<noteq> None) cs = filter (\<lambda>c. c \<noteq> ch \<and> gget (usersOf (fst s) c) user \<noteq> None) cs"
    using Cons.prems(2) by (intro filter_cong refl) (auto simp: k(3))
  then show ?case
    using Cons.IH [of s1 stop1] k(1) Cons.prems(2) leaveOther_stop [of user ch c stop s] by (simp add: e fr)
qed simp

lemma leaveOthers_stop:
  assumes "bridgeInv D (fst s)" and "leaveOthers env user ch s = (stop, s1)"
  shows "set stop = {c. c \<noteq> ch \<and> gget (usersOf (fst s) c) user \<noteq> None}"
    and "mgActive (fst s1) = mgActive (fst s)" and "mgSlots (fst s1) = mgSlots (fst s)"
    and "mgChannelRooms (fst s1) = mgChannelRooms (fst s)" and "mgRoomChannels (fst s1) = mgRoomChannels (fst s)"
proof -
  let ?cs = "pick (rangeOrder env (snd s)) (gkeys (mgMatrixUsers (fst s)))"
  have "distinct ?cs" by simp
  note f = fold_leaveOther_stop [OF assms(1) this, of user ch "[]"]
  have r: "fold (leaveOther user ch) ?cs ([], s) = (stop, s1)" using assms(2) by (simp add: leaveOthers_def)
  have "c \<in> set ?cs" if "gget (usersOf (fst s) c) user \<noteq> None" for c
    using that by (auto simp: usersOf_def ggetz_def split: option.splits)
  then show "set stop = {c. c \<noteq> ch \<and> gget (usersOf (fst s) c) user \<noteq> None}" using f unfolding r by auto
  show "mgActive (fst s1) = mgActive (fst s)" "mgSlots (fst s1) = mgSlots (fst s)"
    "mgChannelRooms (fst s1) = mgChannelRooms (fst s)" "mgRoomChannels (fst s1) = mgRoomChannels (fst s)" using f unfolding r by auto
qed

text \<open>The channels the user is counted in, apart from \<open>ch\<close>; whether a slot is or becomes free.\<close>

definition elsewhere :: "string \<Rightarrow> u64 \<Rightarrow> manager \<Rightarrow> u64 set" where
  "elsewhere user ch m = {a. a \<noteq> ch \<and> gget (usersOf m a) user \<noteq> None}"

definition slotAvailable :: "u64 set \<Rightarrow> manager \<Rightarrow> bool" where
  "slotAvailable moved m \<longleftrightarrow> (\<exists>i < length (mgSlots m). slChannel (mgSlots m ! i) = freeCh \<or> slChannel (mgSlots m ! i) \<in> moved - {deadCh})"

definition joinedCall :: "string \<Rightarrow> u64 \<Rightarrow> manager \<Rightarrow> manager \<Rightarrow> bool" where
  "joinedCall user ch m m' \<longleftrightarrow>
     gget (usersOf m' ch) user \<noteq> None \<and> (\<forall>a. a \<noteq> ch \<longrightarrow> gget (usersOf m' a) user = None) \<and>
     (\<forall>a u. u \<noteq> user \<longrightarrow> gget (usersOf m' a) u = gget (usersOf m a) u) \<and>
     gget (mgStopTimers m') ch = None \<and> mgRoomChannels m' = mgRoomChannels m \<and>
     (\<forall>a. a \<noteq> ch \<longrightarrow> gget (mgActive m') a = (if a \<in> elsewhere user ch m then None else gget (mgActive m) a)) \<and>
     (case gget (mgActive m) ch of
        Some b \<Rightarrow> gget (mgActive m') ch = Some b
      | None \<Rightarrow> gget (mgActive m') ch \<noteq> None \<longleftrightarrow>
          gget (usersOf m ch) user = None \<and> ggetz '''' (mgChannelRooms m) ch \<noteq> '''' \<and> slotAvailable (elsewhere user ch m) m)"

lemma freeSlot_stopped:
  assumes "stoppedAll cs m m'"
  shows "freeSlot (mgSlots m') \<noteq> None \<longleftrightarrow> slotAvailable (set cs) m"
proof -
  have "freeSlot (mgSlots m') \<noteq> None \<longleftrightarrow> (\<exists>i < length (mgSlots m'). slChannel (mgSlots m' ! i) = freeCh)"
    by (auto simp: freeSlot_def find_None_iff)
  moreover have "slChannel (mgSlots m' ! i) = freeCh \<longleftrightarrow>
      slChannel (mgSlots m ! i) = freeCh \<or> slChannel (mgSlots m ! i) \<in> set cs - {deadCh}" if "i < length (mgSlots m)" for i
  proof -
    have "slChannel (mgSlots m' ! i) =
        (if slChannel (mgSlots m ! i) \<in> set cs - {deadCh} then freeCh else slChannel (mgSlots m ! i))"
      using assms that unfolding stoppedAll_def by blast
    then show ?thesis by auto
  qed
  moreover have "length (mgSlots m') = length (mgSlots m)" using assms by (simp add: stoppedAll_def)
  ultimately show ?thesis unfolding slotAvailable_def by metis
qed

lemma usersOf_users: "mgMatrixUsers m' = mgMatrixUsers m \<Longrightarrow> usersOf m' = usersOf m"
  by (simp add: usersOf_def [abs_def])

text \<open>A start changes the users and timers not at all, and the active bridges only at its channel.\<close>

definition onlyStarts :: "u64 \<Rightarrow> manager \<Rightarrow> manager \<Rightarrow> bool" where
  "onlyStarts ch m m' \<longleftrightarrow>
     mgMatrixUsers m' = mgMatrixUsers m \<and> mgStopTimers m' = mgStopTimers m \<and> mgRoomChannels m' = mgRoomChannels m \<and>
     (\<forall>a. a \<noteq> ch \<longrightarrow> gget (mgActive m') a = gget (mgActive m) a) \<and>
     (case gget (mgActive m) ch of
        Some b \<Rightarrow> gget (mgActive m') ch = Some b
      | None \<Rightarrow> gget (mgActive m') ch \<noteq> None \<longleftrightarrow> ggetz '''' (mgChannelRooms m) ch \<noteq> '''' \<and> freeSlot (mgSlots m) \<noteq> None)"

lemma startBridge_effect:
  assumes "wired m"
  shows "goes (\<lambda>s. onlyStarts ch m (fst s)) (startBridge env ch (m, h))"
proof (rule goes_mono [OF startBridge_spec [OF assms, of ch env h]])
  fix s :: mst
  assume a: "case s of (m', h') \<Rightarrow> if gget (mgActive m) ch = None \<and> ggetz '''' (mgChannelRooms m) ch \<noteq> ''''
     then (case freeSlot (mgSlots m) of None \<Rightarrow> m' = m | Some i \<Rightarrow> started ch i m m') else m' = m"
  obtain m' h' where s: "s = (m', h')" by (cases s)
  show "onlyStarts ch m (fst s)"
  proof (cases "gget (mgActive m) ch = None \<and> ggetz '''' (mgChannelRooms m) ch \<noteq> '''' \<and> freeSlot (mgSlots m) \<noteq> None")
    case True
    then obtain i where "started ch i m m'" using a by (auto simp: s)
    then show ?thesis using True by (auto simp: s onlyStarts_def started_def installBridge_def setSlotChannel_def)
  next
    case False
    then have "m' = m" using a by (auto simp: s split: if_splits option.splits)
    then show ?thesis using False by (auto simp: s onlyStarts_def split: option.split)
  qed
qed

text \<open>What is left of a join when the user has been taken out of the other channels and their bridges are stopped.\<close>

lemma joinedCall_intro:
  assumes inv: "bridgeInv D m" and lo: "leaveOthers env user ch (cancelTimer ch (m, h)) = (stop, s1)"
    and stopped: "stoppedAll stop (fst s1) m2"
    and frame: "mgStopTimers m' = mgStopTimers m2" "mgRoomChannels m' = mgRoomChannels m2"
    and users: "\<And>a u. gget (usersOf m' a) u = (if a = ch \<and> u = user then Some name else gget (usersOf m2 a) u)"
    and others: "\<And>a. a \<noteq> ch \<Longrightarrow> gget (mgActive m') a = gget (mgActive m2) a"
    and here: "case gget (mgActive m2) ch of Some b \<Rightarrow> gget (mgActive m') ch = Some b
      | None \<Rightarrow> gget (mgActive m') ch \<noteq> None \<longleftrightarrow>
          gget (usersOf m2 ch) user = None \<and> ggetz '''' (mgChannelRooms m2) ch \<noteq> '''' \<and> freeSlot (mgSlots m2) \<noteq> None"
  shows "joinedCall user ch m m'"
proof -
  have inv0: "bridgeInv D (fst (cancelTimer ch (m, h)))" using bridgeInv_cancel inv by simp
  note k = leaveOthers_keeps [OF inv0 lo]
  note f = leaveOthers_stop [OF inv0 lo]
  have el: "set stop = elsewhere user ch m" using f(1) by (simp add: elsewhere_def)
  have us1: "gget (usersOf (fst s1) a) u = gget (usersOf m a) u" if "u \<noteq> user \<or> a = ch" for a u
    using k(4,5) that by auto
  have us2: "usersOf m2 = usersOf (fst s1)" using stopped by (intro usersOf_users) (simp add: stoppedAll_def)
  have fr: "freeSlot (mgSlots m2) \<noteq> None \<longleftrightarrow> slotAvailable (elsewhere user ch m) m"
    using freeSlot_stopped [OF stopped] f(3) by (simp add: el slotAvailable_def)
  have ac: "gget (mgActive m2) c = (if c \<in> elsewhere user ch m then None else gget (mgActive m) c)" for c
    using stopped f(2) by (simp add: stoppedAll_def el)
  have nch: "ch \<notin> elsewhere user ch m" by (simp add: elsewhere_def)
  have rm: "mgChannelRooms m2 = mgChannelRooms m" using stopped f(4) by (simp add: stoppedAll_def)
  have tm: "gget (mgStopTimers m') ch = None" "mgRoomChannels m' = mgRoomChannels m"
    using stopped frame k(2) f(5) by (simp_all add: stoppedAll_def)
  show ?thesis
    unfolding joinedCall_def
  proof (intro conjI)
    show "case gget (mgActive m) ch of Some b \<Rightarrow> gget (mgActive m') ch = Some b
      | None \<Rightarrow> gget (mgActive m') ch \<noteq> None \<longleftrightarrow> gget (usersOf m ch) user = None \<and>
          ggetz '''' (mgChannelRooms m) ch \<noteq> '''' \<and> slotAvailable (elsewhere user ch m) m"
      using here nch unfolding ac fr rm us2 us1 [OF disjI2 [OF refl]] by (simp split: option.splits)
  qed (use users others k(3) us1 tm in \<open>auto simp: us2 ac\<close>)
qed

lemma onlyStarts_users:
  assumes "onlyStarts ch (addUser ch user name m2) m'"
  shows "gget (usersOf m' a) u = (if a = ch \<and> u = user then Some name else gget (usersOf m2 a) u)"
proof -
  have "usersOf m' = usersOf (addUser ch user name m2)"
    using assms by (intro usersOf_users) (simp add: onlyStarts_def)
  then show ?thesis by (simp add: addUser_def usersOf_def)
qed

lemma matrixJoin_effect:
  assumes inv: "bridgeInv D m"
  shows "goes (\<lambda>s. joinedCall user ch m (fst s)) (matrixJoin env ch user (m, h))"
proof -
  obtain stop s1 where lo: "leaveOthers env user ch (cancelTimer ch (m, h)) = (stop, s1)"
    by (cases "leaveOthers env user ch (cancelTimer ch (m, h))")
  have inv0: "bridgeInv D (fst (cancelTimer ch (m, h)))" using bridgeInv_cancel inv by simp
  note k = leaveOthers_keeps [OF inv0 lo]
  show ?thesis
    unfolding matrixJoin_def Let_def lo case_prod_conv goes_bind
  proof (rule goes_mono [OF goes_stoppedAll [OF k(1)]])
    fix s2 :: mst assume s2: "bridgeInv D (fst s2) \<and> stoppedAll stop (fst s1) (fst s2)"
    obtain m2 h2 where e: "s2 = (m2, h2)" by (cases s2)
    have st: "stoppedAll stop (fst s1) m2" using s2 by (simp add: e)
    show "goes (\<lambda>s. joinedCall user ch m (fst s)) (case s2 of (m2, h2) \<Rightarrow>
        if gget (usersOf m2 ch) user \<noteq> None then Some (m2, h2)
        else (case (case mgSignaller m2 of None \<Rightarrow> (user, h2) | Some sg \<Rightarrow> GetDisplayName env sg user h2) of
          (name, h3) \<Rightarrow> Option.bind (startBridge env ch (addUser ch user name m2, h3)) (\<lambda>s4. Some (pushMatrixUsers env ch s4))))"
    proof (cases "gget (usersOf m2 ch) user")
      case (Some name)
      have "joinedCall user ch m m2"
        by (rule joinedCall_intro [OF inv lo st, of m2 name]) (use Some in \<open>auto split: option.split\<close>)
      then show ?thesis by (simp add: e Some)
    next
      case None
      have w: "wired (addUser ch user name m2)" for name using s2 by (simp add: e addUser_def bridgeInv_def)
      have "joinedCall user ch m m'" if "onlyStarts ch (addUser ch user name m2) m'" for name m'
        by (rule joinedCall_intro [OF inv lo st, of m' name])
          (use onlyStarts_users [OF that] that None in \<open>auto simp: onlyStarts_def addUser_def split: option.splits\<close>)
      then have "goes (\<lambda>s. joinedCall user ch m (fst s)) (startBridge env ch (addUser ch user name m2, h3))" for name h3
        by (rule goes_mono [OF startBridge_effect [OF w]])
      then show ?thesis by (simp add: e None split: prod.split)
    qed
  qed
qed


section \<open>Leaving\<close>

lemma gget_removeUser: "gget (usersOf (removeUser ch user m) a) u = (if a = ch \<and> u = user then None else gget (usersOf m a) u)"
proof (cases "gget (mgMatrixUsers m) ch")
  case None
  then have "usersOf m ch = []" by (simp add: usersOf_def ggetz_def)
  then show ?thesis using None by (auto simp: removeUser_def)
next
  case (Some users)
  then have "usersOf m ch = users" by (simp add: usersOf_def ggetz_def)
  then show ?thesis using Some by (auto simp: removeUser_def)
qed

lemma armStop_fields [simp]:
  "usersOf (fst (armStop ch s)) = usersOf (fst s)" "mgActive (fst (armStop ch s)) = mgActive (fst s)"
  "mgRoomChannels (fst (armStop ch s)) = mgRoomChannels (fst s)" "mgSlots (fst (armStop ch s)) = mgSlots (fst s)"
  by (simp_all add: armStop_def usersOf_def [abs_def] Let_def split: prod.split option.split)

lemma removeUser_fields [simp]:
  "mgActive (removeUser ch user m) = mgActive m" "mgRoomChannels (removeUser ch user m) = mgRoomChannels m"
  "mgSlots (removeUser ch user m) = mgSlots m" "mgArmed (removeUser ch user m) = mgArmed m"
  "mgNextTimer (removeUser ch user m) = mgNextTimer m"
  by (simp_all add: removeUser_def setUsers_def split: option.split)

lemma matrixLeave_effect:
  "mgActive (fst (matrixLeave env ch user (m, h))) = mgActive m"
  "mgRoomChannels (fst (matrixLeave env ch user (m, h))) = mgRoomChannels m"
  "mgSlots (fst (matrixLeave env ch user (m, h))) = mgSlots m"
  "gget (usersOf (fst (matrixLeave env ch user (m, h))) a) u = (if a = ch \<and> u = user then None else gget (usersOf m a) u)"
  by (simp_all add: matrixLeave_def Let_def gget_removeUser)

lemma session_snoc:
  "session env su evs h0 = Some s \<Longrightarrow> session env su (evs @ later) h0 = foldM (bridgeStep env) later s"
  by (cases "openManager env su h0") (simp_all add: session_def foldM_append)

text \<open>
  C11: A user of a bridged channel who leaves the call and joins again before the five seconds are over disturbs
  nothing: every bridge that ran before still runs, the user is counted in the channel, and no stop is pending
  for it.
\<close>

theorem bridge_debounce:
  assumes ok: "sessionOK env su evs" and s: "session env su evs h0 = Some (m, h)"
    and user: "\<not> hasPrefix user ''@discord_''" and room: "gget (mgRoomChannels m) room = Some ch"
    and tracked: "gget (usersOf m ch) user \<noteq> None" and active: "gget (mgActive m) ch \<noteq> None"
  shows "\<exists>m' h'. session env su (evs @ [MatrixEv room user False, MatrixEv room user True]) h0 = Some (m', h') \<and>
     (\<forall>c. gget (mgActive m') c = gget (mgActive m) c) \<and> gget (usersOf m' ch) user \<noteq> None \<and>
     gget (mgStopTimers m') ch = None \<and> (\<forall>t. (t, ch) \<notin> set (mgArmed m'))"
proof -
  let ?sl = "matrixLeave env ch user (m, h)"
  have ok1: "sessionOK env su (evs @ [MatrixEv room user False, MatrixEv room user True])"
    using ok by (simp add: sessionOK_def eventOK_def)
  obtain m1 h1 where "session env su evs h0 = Some (m1, h1)" "bridgeInv {} m1" by (rule session_inv [OF ok])
  then have inv: "bridgeInv {} m" using s by simp
  have invl: "bridgeInv {} (fst ?sl)" using bridgeInv_matrixLeave inv by simp
  have none: "gget (usersOf (fst ?sl) a) user = None" for a
  proof (cases "a = ch")
    case False
    have "usersOK m" using inv by (simp add: bridgeInv_def)
    then have "\<not> gget (usersOf m a) user \<noteq> None" using usersOK_D [of m a user ch] tracked False by blast
    then show ?thesis by (simp add: matrixLeave_effect)
  qed (simp add: matrixLeave_effect)
  obtain m' h' where j: "matrixJoin env ch user ?sl = Some (m', h')" "joinedCall user ch (fst ?sl) m'"
    using matrixJoin_effect [OF invl, of user ch env "snd ?sl"] by (auto simp: goes_iff)
  have run: "session env su (evs @ [MatrixEv room user False, MatrixEv room user True]) h0 = Some (m', h')"
    using j(1) by (simp add: session_snoc [OF s] OnMatrixCallMember_def user room matrixLeave_effect)
  have el: "elsewhere user ch (fst ?sl) = {}" using none by (simp add: elsewhere_def)
  have "gget (mgActive m') c = gget (mgActive m) c" for c
    using j(2) active by (cases "c = ch") (auto simp: joinedCall_def el matrixLeave_effect)
  moreover have "gget (usersOf m' ch) user \<noteq> None" "gget (mgStopTimers m') ch = None" using j(2) by (simp_all add: joinedCall_def)
  moreover have "(t, ch) \<notin> set (mgArmed m')" for t
  proof -
    obtain m2 h2 where "session env su (evs @ [MatrixEv room user False, MatrixEv room user True]) h0 = Some (m2, h2)" "bridgeInv {} m2"
      by (rule session_inv [OF ok1])
    then have "timersOK m'" using run by (simp add: bridgeInv_def)
    then show ?thesis using j(2) by (auto simp: timersOK_def joinedCall_def)
  qed
  ultimately show ?thesis using run by blast
qed

text \<open>
  C12: When the last user of a bridged channel leaves, the bridge keeps running and a timer of five seconds is
  armed; when it fires, exactly this bridge is stopped, its slot is free again and no stop is pending.
\<close>

theorem bridge_last_leaves:
  assumes ok: "sessionOK env su evs" and s: "session env su evs h0 = Some (m, h)"
    and user: "\<not> hasPrefix user ''@discord_''" and room: "gget (mgRoomChannels m) room = Some ch"
    and only: "\<forall>u. gget (usersOf m ch) u \<noteq> None \<longrightarrow> u = user" and active: "gget (mgActive m) ch = Some b"
  shows "\<exists>m1 h1 t m2 h2. session env su (evs @ [MatrixEv room user False]) h0 = Some (m1, h1) \<and>
     mgActive m1 = mgActive m \<and> (t, ch) \<in> set (mgArmed m1) \<and> last h1 = TimerStart 5000 ch \<and>
     session env su (evs @ [MatrixEv room user False, TimerEv t]) h0 = Some (m2, h2) \<and>
     (\<forall>c. gget (mgActive m2) c = (if c = ch then None else gget (mgActive m) c)) \<and>
     slChannel (mgSlots m2 ! cbSlot b) = freeCh \<and> gget (mgStopTimers m2) ch = None"
proof -
  obtain m1 h1 where l: "matrixLeave env ch user (m, h) = (m1, h1)" by (cases "matrixLeave env ch user (m, h)")
  have eff: "mgActive m1 = mgActive m" "mgSlots m1 = mgSlots m" "gget (usersOf m1 ch) u = None" for u
    using matrixLeave_effect [where env = env and ch = ch and user = user and m = m and h = h] only by (auto simp: l)
  have ok1: "sessionOK env su (evs @ [MatrixEv room user False])" using ok by (simp add: sessionOK_def eventOK_def)
  have run: "session env su (evs @ [MatrixEv room user False]) h0 = Some (m1, h1)"
    by (simp add: session_snoc [OF s] OnMatrixCallMember_def user room l)
  obtain m1' h1' where "session env su (evs @ [MatrixEv room user False]) h0 = Some (m1', h1')" "bridgeInv {} m1'"
    by (rule session_inv [OF ok1])
  then have inv1: "bridgeInv {} m1" using run by simp
  have "glen (usersOf (removeUser ch user m) ch) = 0" using only by (auto simp: gget_removeUser)
  moreover obtain hp where push: "pushMatrixUsers env ch (removeUser ch user m, h) = (removeUser ch user m, hp)"
    using pushMatrixUsers_fst [of env ch "(removeUser ch user m, h)"] by (metis fst_conv prod.collapse)
  ultimately have arm: "(m1, h1) = armStop ch (removeUser ch user m, hp)"
    using l by (simp add: matrixLeave_def Let_def del: glen_eq_0)
  then have t: "gget (mgStopTimers m1) ch = Some (mgNextTimer m)" and last: "last h1 = TimerStart 5000 ch"
    by (auto simp: armStop_def Let_def split: option.splits)
  have ok_m1: "timersOK m1" "slotsOK m1" "piecesOK m1" using inv1 by (simp_all add: bridgeInv_def)
  then have armed: "(mgNextTimer m, ch) \<in> set (mgArmed m1)" using t by (simp add: timersOK_def)
  then have m: "map_of (mgArmed m1) (mgNextTimer m) = Some ch" using ok_m1(1) by (simp add: timersOK_def)
  let ?c = "cancelTimer ch (m1, h1)"
  note f = fired_manager(1) [OF ok_m1(1) m, of h1]
  have invc: "bridgeInv {} (fst ?c)" using bridgeInv_cancel inv1 by simp
  have pc: "piecesOK (fst ?c)" and sc: "slotsOK (fst ?c)" using invc by (simp_all add: bridgeInv_def)
  have ac: "gget (mgActive (fst ?c)) ch = Some b" by (simp add: eff active)
  obtain m2 h2 where stop: "stopBridgeForChannel env ch (fst ?c, h1) = Some (m2, h2)" "m2 = snd (stopTake ch (fst ?c))"
    using stopBridge_spec [OF pc, of ch env h1] by (auto simp: goes_iff)
  have "timerFires env (mgNextTimer m) (m1, h1) = Some (m2, h2)"
    using m f stop(1) eff(3) by (auto simp: timerFires_def split: prod.split) (auto simp: timerCallback_def usersOf_def)
  then have run2: "session env su (evs @ [MatrixEv room user False, TimerEv (mgNextTimer m)]) h0 = Some (m2, h2)"
    by (simp add: session_snoc [OF s] OnMatrixCallMember_def user room l)
  have "gget (mgActive m2) c = (if c = ch then None else gget (mgActive m) c)" for c
    by (simp add: stop(2) stopTake_active eff)
  moreover have "slChannel (mgSlots m2 ! cbSlot b) = freeCh"
    using slotsOK_D [OF sc ac] stopTake_slots(2) [OF sc, of "cbSlot b" ch] by (simp add: stop(2))
  moreover have "gget (mgStopTimers m2) ch = None" by (simp add: stop(2))
  ultimately show ?thesis using run run2 eff(1) armed last by blast
qed

section \<open>An example session\<close>

text \<open>The database knows a room for channel 5.\<close>

definition roomSetup :: bridgeSetup where
  "roomSetup = demoSetup\<lparr>suStore := Some \<lparr>dbBots = [], dbBotSeq = 0,
     dbRooms = [(5, \<lparr>rrMatrix = ''!r'', rrName = ''General'', rrGuild = ''1'', rrCategory = 0\<rparr>)], dbGuilds = []\<rparr>\<rparr>"

lemma roomSetup_ok: "list_all (eventOK calmEnv) evs \<Longrightarrow> sessionOK calmEnv roomSetup evs"
  using demoSetup_ok [of evs]
  by (simp add: sessionOK_def roomSetup_def saneRooms_def saneCh_def freeCh_def deadCh_def gget_def)

lemma roomSetup_start:
  "\<exists>m h. session calmEnv roomSetup [] [] = Some (m, h) \<and> gget (mgRoomChannels m) ''!r'' = Some 5 \<and>
     ggetz '''' (mgChannelRooms m) 5 = ''!r'' \<and> mgMatrixUsers m = [] \<and> gget (mgActive m) 5 = None \<and>
     0 < length (mgSlots m) \<and> slChannel (mgSlots m ! 0) = freeCh"
  by (simp add: session_def openManager_def roomSetup_def demoSetup_def demoSlot_def DiscoverExistingRooms_def NewManager_def
      SetSidecarConfig_def callErr_def Let_def storeListRooms_def List.map_filter_def gkeys_def gget_def scanRoom_def
      loadRoom_def linkRoom_def gput_def ggetz_def)


lemma roomSetup_call:
  "\<exists>m h. session calmEnv roomSetup [MatrixEv ''!r'' ''@a:x'' True] [] = Some (m, h) \<and> gget (mgRoomChannels m) ''!r'' = Some 5 \<and>
     gget (usersOf m 5) ''@a:x'' \<noteq> None \<and> (\<forall>u. gget (usersOf m 5) u \<noteq> None \<longrightarrow> u = ''@a:x'') \<and> gget (mgActive m) 5 \<noteq> None"
proof -
  obtain m h where s: "session calmEnv roomSetup [] [] = Some (m, h)" "gget (mgRoomChannels m) ''!r'' = Some 5"
      "ggetz '''' (mgChannelRooms m) 5 = ''!r''" "mgMatrixUsers m = []" "gget (mgActive m) 5 = None"
      "0 < length (mgSlots m)" "slChannel (mgSlots m ! 0) = freeCh"
    using roomSetup_start by blast
  have "sessionOK calmEnv roomSetup []" by (rule roomSetup_ok) simp
  then obtain m' h' where "session calmEnv roomSetup [] [] = Some (m', h')" "bridgeInv {} m'" by (rule session_inv)
  then have "bridgeInv {} m" using s(1) by simp
  then obtain m1 h1 where j: "matrixJoin calmEnv 5 ''@a:x'' (m, h) = Some (m1, h1)" "joinedCall ''@a:x'' 5 m m1"
    using matrixJoin_effect [of "{}" m "''@a:x''" 5 calmEnv h] by (auto simp: goes_iff)
  have none: "gget (usersOf m a) u = None" for a u using s(4) by (simp add: usersOf_def)
  have "session calmEnv roomSetup ([] @ [MatrixEv ''!r'' ''@a:x'' True]) [] = Some (m1, h1)"
    by (simp only: session_snoc [OF s(1)]) (simp add: OnMatrixCallMember_def s(2) hasPrefix_def j(1))
  moreover have "slotAvailable (elsewhere ''@a:x'' 5 m) m" using s(6,7) by (auto simp: slotAvailable_def)
  ultimately show ?thesis
    using j(2) s(2,3,5) none by (auto simp: joinedCall_def) (metis option.distinct(1))
qed

theorem bridge_debounce_witness:
  "\<exists>m' h'. session calmEnv roomSetup [MatrixEv ''!r'' ''@a:x'' True, MatrixEv ''!r'' ''@a:x'' False, MatrixEv ''!r'' ''@a:x'' True] []
      = Some (m', h') \<and> gget (mgActive m') 5 \<noteq> None \<and> gget (mgStopTimers m') 5 = None"
proof -
  obtain m h where s: "session calmEnv roomSetup [MatrixEv ''!r'' ''@a:x'' True] [] = Some (m, h)"
      "gget (mgRoomChannels m) ''!r'' = Some 5" "gget (usersOf m 5) ''@a:x'' \<noteq> None" "gget (mgActive m) 5 \<noteq> None"
    using roomSetup_call by blast
  have ok: "sessionOK calmEnv roomSetup [MatrixEv ''!r'' ''@a:x'' True]" by (rule roomSetup_ok) (simp add: eventOK_def)
  show ?thesis
    using bridge_debounce [OF ok s(1) _ s(2-4)] s(4) by (auto simp: hasPrefix_def)
qed

theorem bridge_last_leaves_witness:
  "\<exists>m2 h2 t. session calmEnv roomSetup [MatrixEv ''!r'' ''@a:x'' True, MatrixEv ''!r'' ''@a:x'' False, TimerEv t] []
      = Some (m2, h2) \<and> gget (mgActive m2) 5 = None"
proof -
  obtain m h b where s: "session calmEnv roomSetup [MatrixEv ''!r'' ''@a:x'' True] [] = Some (m, h)"
      "gget (mgRoomChannels m) ''!r'' = Some 5" "\<forall>u. gget (usersOf m 5) u \<noteq> None \<longrightarrow> u = ''@a:x''" "gget (mgActive m) 5 = Some b"
    using roomSetup_call by blast
  have ok: "sessionOK calmEnv roomSetup [MatrixEv ''!r'' ''@a:x'' True]" by (rule roomSetup_ok) (simp add: eventOK_def)
  have "\<not> hasPrefix ''@a:x'' ''@discord_''" by (simp add: hasPrefix_def)
  from bridge_last_leaves [OF ok s(1) this s(2-4)] obtain t m2 h2
    where "session calmEnv roomSetup ([MatrixEv ''!r'' ''@a:x'' True] @ [MatrixEv ''!r'' ''@a:x'' False, TimerEv t]) [] = Some (m2, h2)"
      "\<forall>c. gget (mgActive m2) c = (if c = 5 then None else gget (mgActive m) c)" by blast
  then have "session calmEnv roomSetup [MatrixEv ''!r'' ''@a:x'' True, MatrixEv ''!r'' ''@a:x'' False, TimerEv t] [] = Some (m2, h2) \<and>
      gget (mgActive m2) 5 = None" by simp
  then show ?thesis by blast
qed

end
