(* ===== verification/Race.thy ===== *)
theory Race
  imports BridgeCalls
begin

text \<open>
  The manager under concurrency. \<^verbatim>\<open>m.mu\<close> is held only inside the critical sections; between them other
  goroutines run. Here every critical section and every stretch of code between two of them is one step, and the
  goroutines take turns in any order.
\<close>

section \<open>Goroutines\<close>

text \<open>
  Where a goroutine is: before \<^verbatim>\<open>startBridge\<close>, after its claim, before it installs the bridge; before
  \<^verbatim>\<open>stopBridgeForChannel\<close>, after it has taken the bridge out; before \<^verbatim>\<open>HandleSlotDeath\<close>; a timer callback;
  before a joining user is recorded; before \<^verbatim>\<open>pushMatrixUsers\<close>; a read loop with a sidecar's message that it
  could not join; before a hot-added slot is appended.
\<close>

datatype goroutine =
    StartAt u64
  | ConnectAt u64 nat string channelInfo
  | InstallAt u64 chanBridge
  | StopAt u64
  | DisconnectAt chanBridge "slot option"
  | DeathAt int
  | TimerAt u64
  | TrackAt u64 string string
  | PushAt u64
  | RefusedAt nat
  | GrowAt slot

text \<open>One step: where the goroutine is next (nowhere when it has ended), and the new state; \<open>None\<close> is a panic.\<close>

fun advance :: "env \<Rightarrow> goroutine \<Rightarrow> mst \<Rightarrow> (goroutine list \<times> mst) option" where
  "advance env (StartAt ch) (m, h) =
     (case claimSlot ch m of
        (None, m1) \<Rightarrow> Some ([], m1, h)
      | (Some (i, room, info), m1) \<Rightarrow> Some ([ConnectAt ch i room info], m1, h))"
| "advance env (ConnectAt ch i room info) (m, h) = do {
     h1 \<leftarrow> slotWrite (mgSlots m ! i) (joinMsg ch) h;
     (b, h2) \<leftarrow> connectBridge env m ch i room info h1;
     Some ([InstallAt ch b], m, h2)
   }"
| "advance env (InstallAt ch b) (m, h) = Some ([], installBridge ch b m, h)"
| "advance env (StopAt ch) (m, h) =
     (case stopTake ch m of
        (None, m1) \<Rightarrow> Some ([], m1, h)
      | (Some (b, sl), m1) \<Rightarrow> Some ([DisconnectAt b sl], m1, h))"
| "advance env (DisconnectAt b sl) (m, h) = map_option (\<lambda>h1. ([], m, h1)) (disconnectBridge env (b, sl) h)"
| "advance env (DeathAt idx) (m, h) =
     (case deathMark env idx (m, h) of
        None \<Rightarrow> Some ([], m, h)
      | Some (c, s1) \<Rightarrow> Some (if c \<noteq> 0 then [StopAt c] else [], s1))"
| "advance env (TimerAt ch) (m, h) =
     (case timerCallback ch m of (stillEmpty, m1) \<Rightarrow> Some (if stillEmpty then [StopAt ch] else [], m1, h))"
| "advance env (TrackAt ch user name) (m, h) = Some ([StartAt ch], addUser ch user name m, h)"
| "advance env (PushAt ch) s = Some ([], pushMatrixUsers env ch s)"
| "advance env (RefusedAt i) (m, h) =
     (case bridgeForSlot (rangeOrder env h) i m of
        None \<Rightarrow> Some ([], m, h)
      | Some b \<Rightarrow> Some ([StopAt (cbChannel b)], m, h))"
| "advance env (GrowAt sl) (m, h) = Some ([], addSlot sl m, h)"

type_synonym race = "mst \<times> goroutine list"

text \<open>The goroutines that events start; a timer's callback starts when an armed timer fires.\<close>

fun entry :: "goroutine \<Rightarrow> bool" where
  "entry (ConnectAt ch i room info) = False"
| "entry (InstallAt ch b) = False"
| "entry (DisconnectAt b sl) = False"
| "entry (TimerAt ch) = False"
| "entry (GrowAt sl) = (slConn sl \<noteq> None)"
| "entry g = True"

inductive interleave :: "env \<Rightarrow> race \<Rightarrow> race \<Rightarrow> bool" for env where
  spawn: "entry g \<Longrightarrow> interleave env (s, gs) (s, gs @ [g])"
| fire: "(t, ch) \<in> set (mgArmed m) \<Longrightarrow> interleave env ((m, h), gs)
    ((m\<lparr>mgArmed := filter (\<lambda>a. fst a \<noteq> t) (mgArmed m)\<rparr>, h), gs @ [TimerAt ch])"
| move: "advance env g s = Some (next, s') \<Longrightarrow> interleave env (s, xs @ g # ys) (s', xs @ next @ ys)"

inductive_cases interleaveE: "interleave env (s, gs) t"

section \<open>What holds under every interleaving\<close>

























section \<open>What can go wrong\<close>














lemma wired_install [simp]: "wired (installBridge ch b m) = wired m"
  by (simp add: wired_def installBridge_def)





section \<open>Examples\<close>








end
