(* ===== verification/Commands.thy ===== *)
theory Commands
  imports BridgeCalls
begin

text \<open>
  \<^verbatim>\<open>pkg/matrix/commands.go\<close>: the admin commands, which reach the bridge manager through the interface
  \<^verbatim>\<open>types.ManagerAPI\<close>. The interface is a record of functions, its contract is the locale \<open>manager_api\<close>, and
  the manager of \<open>Bridge\<close> is an instance of it.
\<close>

section \<open>The interface\<close>

text \<open>\<open>'m\<close> is the manager behind the interface; an operation that returns \<open>None\<close> panics.\<close>

record 'm managerAPI =
  apiStats :: "'m \<Rightarrow> nat \<times> nat \<times> nat \<times> nat"
  apiListRooms :: "'m \<Rightarrow> (u64, roomInfo) gomap"
  apiListSlots :: "'m \<Rightarrow> slotInfo list"
  apiManualJoin :: "string \<Rightarrow> 'm \<times> history \<Rightarrow> (goerror option \<times> 'm \<times> history) option"
  apiManualLeave :: "string \<Rightarrow> 'm \<times> history \<Rightarrow> (goerror option \<times> 'm \<times> history) option"
  apiAddBot :: "string \<Rightarrow> 'm \<times> history \<Rightarrow> ((goerror + nat) \<times> 'm \<times> history) option"
  apiRemoveBot :: "int \<Rightarrow> 'm \<times> history \<Rightarrow> (goerror option \<times> 'm \<times> history) option"
  apiRebuildDB :: "'m \<times> history \<Rightarrow> ((goerror + nat) \<times> 'm \<times> history) option"

definition bridgeAPI :: "env \<Rightarrow> manager managerAPI" where
  "bridgeAPI env = \<lparr>
     apiStats = Stats, apiListRooms = ListRooms, apiListSlots = ListSlots,
     apiManualJoin = ManualJoin env, apiManualLeave = ManualLeave env,
     apiAddBot = (\<lambda>token s. Some (AddBot env token s)), apiRemoveBot = RemoveBot env, apiRebuildDB = RebuildDB env\<rparr>"

section \<open>Text\<close>

definition emDash :: string where "emDash = [CHR 0xE2, CHR 0x80, CHR 0x94]"
definition rightArrow :: string where "rightArrow = [CHR 0xE2, CHR 0x86, CHR 0x92]"
definition newline :: string where "newline = [CHR 0x0A]"

text \<open>\<^verbatim>\<open>Duration.String\<close> of a duration rounded to seconds that is not negative.\<close>

definition roundSec :: "int \<Rightarrow> nat" where
  "roundSec ms = nat ((ms + 500) div 1000)"

definition durationString :: "nat \<Rightarrow> string" where
  "durationString s =
     (let h = s div 3600; m = s div 60 mod 60; sec = formatNat (s mod 60) @ ''s'' in
      if s div 60 = 0 then sec
      else if h = 0 then formatNat m @ ''m'' @ sec
      else formatNat h @ ''h'' @ formatNat m @ ''m'' @ sec)"

text \<open>
  \<^verbatim>\<open>fmt.Sscanf(s, "%d", &i)\<close> on a word without white space: an optional sign, then the longest run of
  digits, which has to be a 64-bit integer. What follows the digits is not looked at.
\<close>

definition isDigit :: "char \<Rightarrow> bool" where
  "isDigit c \<longleftrightarrow> digitVal c \<noteq> None"

definition signedDigits :: "bool \<Rightarrow> string \<Rightarrow> int option" where
  "signedDigits neg ds =
     (let tok = takeWhile isDigit ds in
      if tok = [] then None
      else case parseDigits 0 tok of
        None \<Rightarrow> None
      | Some n \<Rightarrow>
          if neg then (if n \<le> 2 ^ 63 then Some (- int n) else None)
          else (if n < 2 ^ 63 then Some (int n) else None))"

definition sscanInt :: "string \<Rightarrow> int option" where
  "sscanInt s =
     (case s of
        [] \<Rightarrow> None
      | c # cs \<Rightarrow> if c = CHR ''-'' then signedDigits True cs
                 else if c = CHR ''+'' then signedDigits False cs
                 else signedDigits False s)"

section \<open>The command handler\<close>

record cmdHandler =
  chAdmins :: "(string, bool) gomap"
  chStartTime :: int
  chGuildID :: string

definition NewCommandHandler :: "env \<Rightarrow> string list \<Rightarrow> string \<Rightarrow> history \<Rightarrow> cmdHandler" where
  "NewCommandHandler env adminUsers guildID h =
     \<lparr>chAdmins = fold (\<lambda>u. gput (trimSpace u) True) adminUsers [], chStartTime = nowMs env h, chGuildID = guildID\<rparr>"

definition IsAdmin :: "cmdHandler \<Rightarrow> string \<Rightarrow> bool" where
  "IsAdmin ch sender = ggetz False (chAdmins ch) sender"

definition cmdHelp :: string where
  "cmdHelp = joinWith newline
     [''Available commands:'',
      ''!status '' @ emDash @ '' uptime, active bridges, slot usage'',
      ''!rooms '' @ emDash @ '' list voice channel '' @ rightArrow @ '' Matrix room mappings'',
      ''!bots '' @ emDash @ '' list sidecar slots and their status'',
      ''!bot-add <token> '' @ emDash @ '' hot-add a Discord bot (persisted to DB)'',
      ''!bot-remove <slot> '' @ emDash @ '' remove a bot slot'',
      ''!sync-db '' @ emDash @ '' rebuild DB from Matrix state events'',
      ''!join <channel-name> '' @ emDash @ '' manually start bridge for a channel'',
      ''!leave [channel-name] '' @ emDash @ '' stop bridge (all if no name)'',
      ''!log-level <info|debug|trace> '' @ emDash @ '' change log level at runtime'',
      ''!help '' @ emDash @ '' this message'']"

definition cmdStatus :: "env \<Rightarrow> cmdHandler \<Rightarrow> 'm managerAPI \<Rightarrow> 'm \<times> history \<Rightarrow> string" where
  "cmdStatus env ch api s =
     (let (bridges, busy, total, users) = apiStats api (fst s);
          uptime = roundSec (nowMs env (snd s) - chStartTime ch)
      in joinWith newline
           [''Bridge Status:'',
            ''  Uptime: '' @ durationString uptime,
            ''  Guild: '' @ chGuildID ch,
            ''  Active bridges: '' @ formatNat bridges,
            ''  Slots: '' @ formatNat busy @ ''/'' @ formatNat total @ '' busy'',
            ''  Discord users in VCs: '' @ formatNat users])"

definition roomLine :: "u64 \<Rightarrow> roomInfo \<Rightarrow> string" where
  "roomLine ch info =
     (let name = (if riName info = [] then ''channel-'' @ formatUint ch else riName info)
      in ''  '' @ name @ '' '' @ rightArrow @ '' '' @ riRoomID info @ newline)"

definition cmdRooms :: "env \<Rightarrow> 'm managerAPI \<Rightarrow> 'm \<times> history \<Rightarrow> string" where
  "cmdRooms env api s =
     (let rooms = apiListRooms api (fst s) in
      if glen rooms = 0 then ''No voice rooms discovered.''
      else ''Voice rooms ('' @ formatNat (glen rooms) @ ''):'' @ newline @
        concat (map (\<lambda>ch. case gget rooms ch of None \<Rightarrow> [] | Some info \<Rightarrow> roomLine ch info)
          (pick (rangeOrder env (snd s)) (gkeys rooms))))"

definition slotLine :: "slotInfo \<Rightarrow> string" where
  "slotLine si =
     ''  ['' @ formatNat (siIndex si) @ ''] '' @ siStatus si @
     (if siStatus si = ''busy''
      then '' '' @ rightArrow @ '' '' @ (if siChannelName si = [] then formatUint (siChannelID si) else siChannelName si)
      else []) @
     (if siToken si \<noteq> [] then '' (token: '' @ siToken si @ '')'' else []) @ newline"

definition cmdBots :: "'m managerAPI \<Rightarrow> 'm \<Rightarrow> string" where
  "cmdBots api m =
     (let slots = apiListSlots api m in
      if slots = [] then ''No sidecar slots.''
      else ''Bot slots ('' @ formatNat (length slots) @ ''):'' @ newline @ concat (map slotLine slots))"

definition cmdJoin :: "env \<Rightarrow> 'm managerAPI \<Rightarrow> string list \<Rightarrow> 'm \<times> history \<Rightarrow> (string \<times> 'm \<times> history) option" where
  "cmdJoin env api args s =
     (if args = [] then Some (''Usage: !join <channel-name>'', s)
      else let name = joinWith '' '' args in
        map_option (\<lambda>(err, s1). (case err of
            Some e \<Rightarrow> ''Failed to join: '' @ e
          | None \<Rightarrow> ''Started bridge for '' @ fmtQuote env name, s1))
          (apiManualJoin api name s))"

definition cmdLeave :: "env \<Rightarrow> 'm managerAPI \<Rightarrow> string list \<Rightarrow> 'm \<times> history \<Rightarrow> (string \<times> 'm \<times> history) option" where
  "cmdLeave env api args s =
     (let name = joinWith '' '' args in
      map_option (\<lambda>(err, s1). (case err of
          Some e \<Rightarrow> ''Failed to leave: '' @ e
        | None \<Rightarrow> if name = [] then ''Stopped all bridges.'' else ''Stopped bridge for '' @ fmtQuote env name, s1))
        (apiManualLeave api name s))"

text \<open>The levels of \<^verbatim>\<open>slog\<close>; the new level, if any, goes to the level setter.\<close>

definition LevelTrace :: int where "LevelTrace = - 8"
definition LevelDebug :: int where "LevelDebug = - 4"
definition LevelInfo :: int where "LevelInfo = 0"
definition LevelWarn :: int where "LevelWarn = 4"
definition LevelError :: int where "LevelError = 8"

definition cmdLogLevel :: "env \<Rightarrow> string list \<Rightarrow> string \<times> int option" where
  "cmdLogLevel env args =
     (case args of
        [] \<Rightarrow> (''Usage: !log-level <info|debug|trace>'', None)
      | arg # _ \<Rightarrow>
          let level = ucLower env arg; reply = ''Log level set to '' @ level in
          if level = ''info'' then (reply, Some LevelInfo)
          else if level = ''debug'' then (reply, Some LevelDebug)
          else if level = ''trace'' then (reply, Some LevelTrace)
          else if level = ''warn'' then (reply, Some LevelWarn)
          else (''Unknown level '' @ fmtQuote env level @ '' '' @ emDash @ '' use info, debug, or trace'', None))"

definition cmdSyncDB :: "'m managerAPI \<Rightarrow> 'm \<times> history \<Rightarrow> (string \<times> 'm \<times> history) option" where
  "cmdSyncDB api s =
     map_option (\<lambda>(r, s1). (case r of
         Inl e \<Rightarrow> ''Failed to rebuild DB: '' @ e
       | Inr found \<Rightarrow> ''Rebuilt database from Matrix state: '' @ formatNat found @ '' rooms found.'', s1))
       (apiRebuildDB api s)"

definition cmdBotAdd :: "'m managerAPI \<Rightarrow> string list \<Rightarrow> 'm \<times> history \<Rightarrow> (string \<times> 'm \<times> history) option" where
  "cmdBotAdd api args s =
     (case args of
        [] \<Rightarrow> Some (''Usage: !bot-add <discord-bot-token>'', s)
      | token # _ \<Rightarrow>
          map_option (\<lambda>(r, s1). (case r of
              Inl e \<Rightarrow> ''Failed to add bot: '' @ e
            | Inr slotIdx \<Rightarrow> ''Bot added as slot '' @ formatNat slotIdx @ '' (audio-only). Persisted to database.'', s1))
            (apiAddBot api token s))"

definition cmdBotRemove :: "'m managerAPI \<Rightarrow> string list \<Rightarrow> 'm \<times> history \<Rightarrow> (string \<times> 'm \<times> history) option" where
  "cmdBotRemove api args s =
     (case args of
        [] \<Rightarrow> Some (''Usage: !bot-remove <slot-number>'', s)
      | arg # _ \<Rightarrow>
          (case sscanInt arg of
             None \<Rightarrow> Some (''Invalid slot number: '' @ arg, s)
           | Some slotIdx \<Rightarrow>
               map_option (\<lambda>(err, s1). (case err of
                   Some e \<Rightarrow> ''Failed to remove bot: '' @ e
                 | None \<Rightarrow> ''Slot '' @ formatInt slotIdx @ '' removed and marked dead.'', s1))
                 (apiRemoveBot api slotIdx s)))"

text \<open>The handler: the state is the manager and the log level, the reply is empty for an empty message.\<close>

definition withLevel :: "int \<Rightarrow> string \<times> 'm \<times> history \<Rightarrow> string \<times> ('m \<times> int) \<times> history" where
  "withLevel lv r = (case r of (reply, m, h) \<Rightarrow> (reply, (m, lv), h))"

definition HandleCommand ::
  "env \<Rightarrow> cmdHandler \<Rightarrow> 'm managerAPI \<Rightarrow> string \<Rightarrow> string \<Rightarrow> string \<Rightarrow> ('m \<times> int) \<times> history
    \<Rightarrow> (string \<times> ('m \<times> int) \<times> history) option" where
  "HandleCommand env ch api roomID sender body st =
     (let ((m, lv), h) = st in
      case fieldsFrom [] body of
        [] \<Rightarrow> Some ([], st)
      | word # args \<Rightarrow>
          let cmd = ucLower env word in
          if cmd = ''!help'' then Some (cmdHelp, st)
          else if cmd = ''!status'' then Some (cmdStatus env ch api (m, h), st)
          else if cmd = ''!rooms'' then Some (cmdRooms env api (m, h), st)
          else if cmd = ''!bots'' then Some (cmdBots api m, st)
          else if cmd = ''!join'' then map_option (withLevel lv) (cmdJoin env api args (m, h))
          else if cmd = ''!leave'' then map_option (withLevel lv) (cmdLeave env api args (m, h))
          else if cmd = ''!log-level'' then
            (case cmdLogLevel env args of
               (reply, None) \<Rightarrow> Some (reply, st)
             | (reply, Some l) \<Rightarrow> Some (reply, (m, l), h))
          else if cmd = ''!bot-add'' then map_option (withLevel lv) (cmdBotAdd api args (m, h))
          else if cmd = ''!bot-remove'' then map_option (withLevel lv) (cmdBotRemove api args (m, h))
          else if cmd = ''!sync-db'' then map_option (withLevel lv) (cmdSyncDB api (m, h))
          else Some (''unknown command: '' @ cmd @ '' '' @ emDash @ '' try !help'', st))"


section \<open>The contract of the interface\<close>

text \<open>
  Every operation of the manager behind the interface ends without a panic and keeps the manager's invariant.
\<close>

locale manager_api =
  fixes api :: "'m managerAPI" and inv :: "'m \<Rightarrow> bool"
  assumes join_ok: "inv m \<Longrightarrow> goes (\<lambda>(e, m', h'). inv m') (apiManualJoin api name (m, h))"
    and leave_ok: "inv m \<Longrightarrow> goes (\<lambda>(e, m', h'). inv m') (apiManualLeave api name (m, h))"
    and add_ok: "inv m \<Longrightarrow> goes (\<lambda>(e, m', h'). inv m') (apiAddBot api token (m, h))"
    and remove_ok: "inv m \<Longrightarrow> goes (\<lambda>(e, m', h'). inv m') (apiRemoveBot api i (m, h))"
    and rebuild_ok: "inv m \<Longrightarrow> goes (\<lambda>(e, m', h'). inv m') (apiRebuildDB api (m, h))"
begin

lemmas api_ok = join_ok leave_ok add_ok remove_ok rebuild_ok

lemma goes_cmds:
  assumes "inv m"
  shows "goes (\<lambda>(r, m', h'). inv m') (cmdJoin env api args (m, h))"
    and "goes (\<lambda>(r, m', h'). inv m') (cmdLeave env api args (m, h))"
    and "goes (\<lambda>(r, m', h'). inv m') (cmdBotAdd api args (m, h))"
    and "goes (\<lambda>(r, m', h'). inv m') (cmdBotRemove api args (m, h))"
    and "goes (\<lambda>(r, m', h'). inv m') (cmdSyncDB api (m, h))"
  using assms
  by (auto simp: cmdJoin_def cmdLeave_def cmdBotAdd_def cmdBotRemove_def cmdSyncDB_def goes_map Let_def case_prod_unfold
      split: list.split option.split intro!: goes_mono [OF api_ok(1)] goes_mono [OF api_ok(2)] goes_mono [OF api_ok(3)]
        goes_mono [OF api_ok(4)] goes_mono [OF api_ok(5)])

lemma goes_withLevel:
  assumes "goes (\<lambda>(r, m', h'). inv m') c"
  shows "goes (\<lambda>(r, (m', l), h'). inv m') (map_option (withLevel lv) c)"
  unfolding goes_map by (rule goes_mono [OF assms]) (auto simp: withLevel_def)

lemma goes_HandleCommand:
  assumes "inv m"
  shows "goes (\<lambda>(r, (m', l), h'). inv m') (HandleCommand env ch api room sender body ((m, lv), h))"
  using assms goes_withLevel [OF goes_cmds(1)] goes_withLevel [OF goes_cmds(2)] goes_withLevel [OF goes_cmds(3)]
    goes_withLevel [OF goes_cmds(4)] goes_withLevel [OF goes_cmds(5)]
  by (auto simp: HandleCommand_def Let_def split: list.split prod.split option.split)

lemma goes_messageEvent:
  assumes "inv m"
  shows "goes (\<lambda>((m', l), h'). inv m')
    (messageEvent env adm (HandleCommand env ch api) botUser ready room sender body ((m, lv), h))"
  using assms
  by (auto simp: messageEvent_def goes_map split: option.split if_splits intro!: goes_mono [OF goes_HandleCommand])

end


text \<open>The manager keeps the contract.\<close>

interpretation bridge_api: manager_api "bridgeAPI env" "\<lambda>m. bridgeInv D m \<and> saneStates env" for env D
proof unfold_locales
  fix m :: manager and h :: history and name token :: string and i :: int
  assume inv: "bridgeInv D m \<and> saneStates env"
  show "goes (\<lambda>(e, m', h'). bridgeInv D m' \<and> saneStates env) (apiManualJoin (bridgeAPI env) name (m, h))"
    using inv goes_ManualJoin [of D "(m, h)" env name] by (auto simp: bridgeAPI_def case_prod_unfold elim!: goes_mono)
  show "goes (\<lambda>(e, m', h'). bridgeInv D m' \<and> saneStates env) (apiManualLeave (bridgeAPI env) name (m, h))"
    using inv goes_ManualLeave [of D "(m, h)" env name] by (auto simp: bridgeAPI_def case_prod_unfold elim!: goes_mono)
  show "goes (\<lambda>(e, m', h'). bridgeInv D m' \<and> saneStates env) (apiAddBot (bridgeAPI env) token (m, h))"
    using inv bridgeInv_AddBot [of D "(m, h)" env token] by (simp add: bridgeAPI_def case_prod_unfold)
  show "goes (\<lambda>(e, m', h'). bridgeInv D m' \<and> saneStates env) (apiRemoveBot (bridgeAPI env) i (m, h))"
    using inv goes_RemoveBot [of D "(m, h)" env i] by (auto simp: bridgeAPI_def case_prod_unfold elim!: goes_mono)
  show "goes (\<lambda>(e, m', h'). bridgeInv D m' \<and> saneStates env) (apiRebuildDB (bridgeAPI env) (m, h))"
    using inv goes_RebuildDB [of D "(m, h)" env] by (auto simp: bridgeAPI_def case_prod_unfold elim!: goes_mono)
qed

section \<open>Words\<close>

text \<open>Printable ASCII without the blank, and what Unicode case mapping does to ASCII.\<close>

definition graphic :: "char \<Rightarrow> bool" where
  "graphic c \<longleftrightarrow> 33 \<le> (of_char c :: nat) \<and> (of_char c :: nat) \<le> 126"

definition asciiCase :: "env \<Rightarrow> bool" where
  "asciiCase env \<longleftrightarrow> (\<forall>s. (\<forall>c \<in> set s. (of_char c :: nat) < 128) \<longrightarrow> ucLower env s = asciiLower s)"

lemma spaces_not_graphic:
  "list_all (\<lambda>w. \<not> graphic (hd w)) asciiSpaces" "list_all (\<lambda>w. \<not> graphic (hd w)) twoByteSpaces"
  "list_all (\<lambda>w. \<not> graphic (hd w)) threeByteSpaces"
  by (simp_all add: graphic_def asciiSpaces_def twoByteSpaces_def threeByteSpaces_def upt_rec)

lemma spaceLen_graphic:
  assumes "graphic c"
  shows "spaceLen (c # cs) = 0"
proof -
  have no: "take (Suc k) (c # cs) \<notin> set ws" if "list_all (\<lambda>w. \<not> graphic (hd w)) ws" for k ws
    using that assms by (fastforce simp: list_all_iff)
  show ?thesis
    using no [OF spaces_not_graphic(1), of 0] no [OF spaces_not_graphic(2), of 1] no [OF spaces_not_graphic(3), of 2]
    by (simp add: spaceLen_def numeral_2_eq_2 numeral_3_eq_3)
qed

lemma fieldsFrom_graphic: "list_all graphic w \<Longrightarrow> fieldsFrom cur (w @ rest) = fieldsFrom (rev w @ cur) rest"
  by (induction w arbitrary: cur) (simp_all add: spaceLen_graphic)

lemma spaceLen_blank: "spaceLen (CHR '' '' # cs) = 1"
proof -
  have "char_of (32 :: nat) = CHR '' ''" by code_simp
  then show ?thesis by (simp add: spaceLen_def asciiSpaces_def)
qed

lemma fields_word: "list_all graphic w \<Longrightarrow> w \<noteq> [] \<Longrightarrow> fieldsFrom [] w = [w]"
  using fieldsFrom_graphic [of w "[]" "[]"] by simp

lemma fields_words:
  assumes "list_all graphic w" and "w \<noteq> []"
  shows "fieldsFrom [] (w @ CHR '' '' # rest) = w # fieldsFrom [] rest"
  using assms fieldsFrom_graphic [OF assms(1), of "[]" "CHR '' '' # rest"] by (simp add: spaceLen_blank Let_def)

lemma graphic_lower: "graphic (asciiLowerChar c) \<Longrightarrow> graphic c"
  by (auto simp: graphic_def asciiLowerChar_def Let_def split: if_splits)

lemma lower_word:
  assumes "asciiCase env" and "asciiLower w = cmd" and "list_all graphic cmd"
  shows "list_all graphic w" and "ucLower env w = cmd"
proof -
  have g: "\<forall>c \<in> set w. graphic c" using assms(2,3) graphic_lower by (auto simp: asciiLower_def list_all_iff)
  then show "list_all graphic w" by (simp add: list_all_iff)
  have "\<forall>c \<in> set w. (of_char c :: nat) < 128" using g by (auto simp: graphic_def)
  then show "ucLower env w = cmd" using assms(1,2) unfolding asciiCase_def by blast
qed

lemma takeWhile_digits:
  "\<forall>c \<in> set s. isDigit c \<Longrightarrow> rest = [] \<or> \<not> isDigit (hd rest) \<Longrightarrow> takeWhile isDigit (s @ rest) = s"
  by (cases rest) (auto simp: takeWhile_tail)

lemma sscanInt_formatInt:
  assumes "- (2 ^ 63) \<le> i" "i < 2 ^ 63" and "rest = [] \<or> \<not> isDigit (hd rest)"
  shows "sscanInt (formatInt i @ rest) = Some i"
proof -
  have digits: "takeWhile isDigit (formatNat n @ rest) = formatNat n" for n
    using assms(3) formatNat_digits [of _ n] by (intro takeWhile_digits) (auto simp: isDigit_def)
  have sign: "\<exists>c cs. formatNat n = c # cs \<and> c \<noteq> CHR ''-'' \<and> c \<noteq> CHR ''+''" for n
  proof -
    obtain c cs where c: "formatNat n = c # cs" by (cases "formatNat n") simp_all
    then have "digitVal c \<noteq> None" using formatNat_digits [of c n] by simp
    then show ?thesis using c by (auto simp: digitVal_def)
  qed
  show ?thesis
  proof (cases "i < 0")
    case True
    have "nat (- i) \<le> 2 ^ 63" using assms(1) by (simp add: nat_le_iff)
    then show ?thesis using True by (simp add: formatInt_def sscanInt_def signedDigits_def digits parseDigits_formatNat)
  next
    case False
    have "nat i < 2 ^ 63" using assms(2) False by (simp add: nat_less_iff)
    moreover obtain c cs where "formatNat (nat i) = c # cs" "c \<noteq> CHR ''-''" "c \<noteq> CHR ''+''" using sign by blast
    ultimately show ?thesis
      using False digits [of "nat i"] parseDigits_formatNat [of "nat i"]
      by (simp add: formatInt_def sscanInt_def signedDigits_def)
  qed
qed


section \<open>Properties\<close>

lemma chAdmins_fold:
  "ggetz False (fold (\<lambda>u. gput (trimSpace u) True) us m) s = (s \<in> trimSpace ` set us \<or> ggetz False m s)"
  by (induction us arbitrary: m) auto

text \<open>
  C23: A message changes something, or is answered, only if it arrives after the initial sync, starts with an
  exclamation mark and comes from a user of the configured list of admins, whose entries are trimmed; every other
  message leaves the bridge, the log level and the outside as they are.
\<close>

theorem command_admins_only:
  "messageEvent env (IsAdmin (NewCommandHandler env admins guild h0)) handler botUser ready room sender body st = Some st \<or>
   ready \<and> sender \<in> trimSpace ` set admins \<and> (\<exists>msg. body = Some msg \<and> hasPrefix msg ''!'')"
proof -
  have "IsAdmin (NewCommandHandler env admins guild h0) sender \<longleftrightarrow> sender \<in> trimSpace ` set admins"
    by (simp add: IsAdmin_def NewCommandHandler_def chAdmins_fold)
  then show ?thesis by (cases body) (auto simp: messageEvent_def)
qed

text \<open>
  C22: Whatever text an admin or anyone else sends, the command handler does not panic, and afterwards every bridge
  is still on an existing slot that carries its channel and every busy slot carries a bridge.
\<close>

theorem command_safe:
  assumes "sessionOK env su evs" and "session env su evs h0 = Some (m, h)"
  shows "\<exists>m' lv' h'. messageEvent env adm (HandleCommand env ch (bridgeAPI env)) botUser ready room sender body ((m, lv), h)
       = Some ((m', lv'), h') \<and>
     (\<forall>c b. gget (mgActive m') c = Some b \<longrightarrow> cbSlot b < length (mgSlots m') \<and> slChannel (mgSlots m' ! cbSlot b) = c) \<and>
     (\<forall>i < length (mgSlots m'). busySlot (mgSlots m' ! i) \<longrightarrow> gget (mgActive m') (slChannel (mgSlots m' ! i)) \<noteq> None)"
proof -
  obtain m0 h00 where "session env su evs h0 = Some (m0, h00)" "bridgeInv {} m0" by (rule session_inv [OF assms(1)])
  then have "bridgeInv {} m \<and> saneStates env" using assms by (simp add: sessionOK_def)
  from bridge_api.goes_messageEvent [OF this, of env adm ch botUser ready room sender body lv h]
  obtain m' lv' h' where
    "messageEvent env adm (HandleCommand env ch (bridgeAPI env)) botUser ready room sender body ((m, lv), h) = Some ((m', lv'), h')"
    "slotsOK m'"
    by (auto simp: goes_iff bridgeInv_def)
  then show ?thesis using slotsOK_D [of m'] slotsOK_busy [of m'] by blast
qed

text \<open>
  An admin's \<^verbatim>\<open>!leave\<close> without a name, in any capitalisation, stops every bridge: none is left, every
  slot is free or dead, and the reply says so. The users in the calls stay counted.
\<close>

theorem command_leave_all:
  assumes "sessionOK env su evs" and "session env su evs h0 = Some (m, h)" and "asciiCase env" and "asciiLower w = ''!leave''"
  shows "\<exists>m' h'. HandleCommand env ch (bridgeAPI env) room sender w ((m, lv), h) = Some (''Stopped all bridges.'', (m', lv), h') \<and>
     (\<forall>c. gget (mgActive m') c = None) \<and> mgMatrixUsers m' = mgMatrixUsers m \<and> length (mgSlots m') = length (mgSlots m) \<and>
     (\<forall>i < length (mgSlots m). slChannel (mgSlots m' ! i) = (if slChannel (mgSlots m ! i) = deadCh then deadCh else freeCh))"
proof -
  obtain m0 h00 where "session env su evs h0 = Some (m0, h00)" "bridgeInv {} m0" by (rule session_inv [OF assms(1)])
  then have inv: "bridgeInv {} m" using assms(2) by simp
  have ok: "slotsOK m" using inv by (simp add: bridgeInv_def)
  have w: "list_all graphic w" "ucLower env w = ''!leave''" "w \<noteq> []"
    using lower_word [OF assms(3,4)] assms(4) by (auto simp: graphic_def asciiLower_def)
  let ?all = "pick (rangeOrder env h) (gkeys (mgActive m))"
  obtain m' h' where st: "foldM (stopBridgeForChannel env) ?all (m, h) = Some (m', h')" "stoppedAll ?all m m'"
    using goes_stoppedAll [of "{}" "(m, h)" ?all env] inv by (auto simp: goes_iff)
  have leave: "apiManualLeave (bridgeAPI env) [] (m, h) = Some (None, m', h')" by (simp add: bridgeAPI_def ManualLeave_def st(1))
  have run: "HandleCommand env ch (bridgeAPI env) room sender w ((m, lv), h) = Some (''Stopped all bridges.'', (m', lv), h')"
    using w by (simp add: HandleCommand_def fields_word cmdLeave_def leave withLevel_def)
  have none: "gget (mgActive m') c = None" for c using st(2) by (auto simp: stoppedAll_def)
  have "slChannel (mgSlots m' ! i) = (if slChannel (mgSlots m ! i) = deadCh then deadCh else freeCh)" if "i < length (mgSlots m)" for i
  proof (cases "busySlot (mgSlots m ! i)")
    case True
    then have "gget (mgActive m) (slChannel (mgSlots m ! i)) \<noteq> None" using slotsOK_busy [OF ok that] by blast
    then show ?thesis using st(2) that by (auto simp: stoppedAll_def)
  next
    case False
    then have "slChannel (mgSlots m ! i) = freeCh \<or> slChannel (mgSlots m ! i) = deadCh" by (auto simp: busySlot_def)
    then show ?thesis using st(2) that by (auto simp: stoppedAll_def)
  qed
  then show ?thesis using run none st(2) by (auto simp: stoppedAll_def)
qed

text \<open>
  \<^verbatim>\<open>!bot-remove\<close> removes the slot whose number its argument starts with: text directly behind the digits
  is dropped without a word, so \<^verbatim>\<open>!bot-remove 1,2\<close> removes slot 1 and reports success. The reply tells an
  unknown or dead slot from a removed one.
\<close>

theorem command_bot_remove:
  assumes "asciiCase env" and "asciiLower w = ''!bot-remove''" and "- (2 ^ 63) \<le> i" "i < 2 ^ 63"
    and "list_all graphic (formatInt i @ rest)" and "rest = [] \<or> \<not> isDigit (hd rest)"
  shows "HandleCommand env ch (bridgeAPI env) room sender (w @ CHR '' '' # formatInt i @ rest) ((m, lv), h) =
     map_option (\<lambda>(err, m', h'). (case err of
         Some e \<Rightarrow> ''Failed to remove bot: '' @ e
       | None \<Rightarrow> ''Slot '' @ formatInt i @ '' removed and marked dead.'', (m', lv), h')) (RemoveBot env i (m, h))"
proof -
  have w: "list_all graphic w" "ucLower env w = ''!bot-remove''" "w \<noteq> []"
    using lower_word [OF assms(1,2)] assms(2) by (auto simp: graphic_def asciiLower_def)
  have "formatInt i \<noteq> []" by (simp add: formatInt_def)
  then have words: "fieldsFrom [] (w @ CHR '' '' # formatInt i @ rest) = [w, formatInt i @ rest]"
    using assms(5) by (simp only: fields_words [OF w(1,3)]) (simp add: fields_word)
  show ?thesis
    unfolding HandleCommand_def
    by (simp add: words w(2) cmdBotRemove_def sscanInt_formatInt [OF assms(3,4,6)] bridgeAPI_def option.map_comp o_def
        withLevel_def case_prod_unfold)
qed

section \<open>Examples\<close>

lemma asciiCase_calm: "asciiCase calmEnv"
  by (simp add: asciiCase_def)

theorem command_safe_witness:
  "\<exists>m h m' lv' h'. session calmEnv demoSetup [] [] = Some (m, h) \<and>
     messageEvent calmEnv (\<lambda>_. True) (HandleCommand calmEnv (NewCommandHandler calmEnv [''@root:x''] ''1'' []) (bridgeAPI calmEnv))
       ''@bot:x'' True ''!dm'' ''@root:x'' (Some ''!leave'') ((m, 0), h) = Some ((m', lv'), h')"
proof -
  obtain m h where s: "session calmEnv demoSetup [] [] = Some (m, h)" by (rule session_inv [OF demoSetup_ok [of "[]"]]) simp_all
  have "sessionOK calmEnv demoSetup []" by (rule demoSetup_ok) simp
  from command_safe [OF this s, of "\<lambda>_. True" "NewCommandHandler calmEnv [''@root:x''] ''1'' []" "''@bot:x''" True "''!dm''"
      "''@root:x''" "Some ''!leave''" 0]
  show ?thesis using s by blast
qed

theorem command_leave_all_witness:
  "\<exists>m h m' h'. session calmEnv demoSetup [] [] = Some (m, h) \<and>
     HandleCommand calmEnv (NewCommandHandler calmEnv [''@root:x''] ''1'' []) (bridgeAPI calmEnv) ''!dm'' ''@root:x'' ''!Leave'' ((m, 0), h)
       = Some (''Stopped all bridges.'', (m', 0), h')"
proof -
  obtain m h where s: "session calmEnv demoSetup [] [] = Some (m, h)" by (rule session_inv [OF demoSetup_ok [of "[]"]]) simp_all
  have ok: "sessionOK calmEnv demoSetup []" by (rule demoSetup_ok) simp
  have "asciiLower ''!Leave'' = ''!leave''" by code_simp
  from command_leave_all [OF ok s asciiCase_calm this] s show ?thesis by blast
qed

theorem command_bot_remove_witness:
  "HandleCommand calmEnv (NewCommandHandler calmEnv [''@root:x''] ''1'' []) (bridgeAPI calmEnv) ''!dm'' ''@root:x''
     (''!bot-remove'' @ CHR '' '' # formatInt 1 @ '',2'') ((NewManager [] None None (suLkConfig demoSetup) ''1'' ''x'' ''jwt'', 0), []) =
   Some (''Failed to remove bot: slot 1 does not exist'', (NewManager [] None None (suLkConfig demoSetup) ''1'' ''x'' ''jwt'', 0), [])"
proof -
  have f: "formatInt 1 = ''1''" by code_simp
  have "asciiLower ''!bot-remove'' = ''!bot-remove''" by code_simp
  moreover have "list_all graphic (formatInt 1 @ '',2'')" by code_simp
  moreover have "\<not> isDigit (hd '',2'')" by code_simp
  ultimately show ?thesis
    using command_bot_remove [OF asciiCase_calm, of "''!bot-remove''" 1 "'',2''"]
    by (simp add: RemoveBot_def NewManager_def f)
qed

end
