(* ===== verification/MainLoop.thy ===== *)
theory MainLoop
  imports Commands Config
begin

text \<open>
  \<^verbatim>\<open>cmd/bridge/main.go\<close>: the log level, the start of the sidecars, the read loop of a connection and the
  shutdown. The start ends in exactly the setup that the sessions of \<open>BridgeProps\<close> begin with.
\<close>

section \<open>Logging\<close>

definition parseLogLevel :: "string \<Rightarrow> int" where
  "parseLogLevel s =
     (if s = ''trace'' then LevelTrace
      else if s = ''debug'' then LevelDebug
      else if s = ''warn'' then LevelWarn
      else if s = ''error'' then LevelError
      else LevelInfo)"

text \<open>The flag wins over the configuration; an empty level leaves the default.\<close>

definition mainLevel :: "string \<Rightarrow> config \<Rightarrow> config \<times> int" where
  "mainLevel logLevel cfg =
     (let cfg1 = (if logLevel \<noteq> [] then cfg\<lparr>cfgLogLevel := logLevel\<rparr> else cfg)
      in (cfg1, if cfgLogLevel cfg1 \<noteq> [] then parseLogLevel (cfgLogLevel cfg1) else LevelInfo))"

text \<open>The log handler lets a record through or drops it.\<close>

definition filterHandle :: "string \<Rightarrow> bool" where
  "filterHandle msg \<longleftrightarrow> \<not> (hasPrefix msg ''pion.'' \<or> hasPrefix msg [CHR 0x22, CHR ''l'', CHR ''e'', CHR ''v'', CHR ''e'', CHR ''l'', CHR 0x22, CHR ''=''])"

section \<open>Start\<close>

definition seedTokens :: "env \<Rightarrow> string list \<Rightarrow> string \<Rightarrow> database \<times> history \<Rightarrow> database \<times> history" where
  "seedTokens env tokens guildID = fold (\<lambda>token s. snd (storeAddBot env token guildID s)) tokens"

text \<open>What the start loop has collected: the slots, the listeners and the processes.\<close>

record started =
  stSlots :: "slot list"
  stServers :: "server list"
  stCmds :: "nat list"

definition noneStarted :: started where
  "noneStarted = \<lparr>stSlots = [], stServers = [], stCmds = []\<rparr>"

definition sidecarErr :: "nat \<Rightarrow> goerror \<Rightarrow> goerror" where
  "sidecarErr i e = ''sidecar '' @ formatNat i @ '': '' @ e"

definition acceptErr :: "nat \<Rightarrow> goerror \<Rightarrow> goerror" where
  "acceptErr i e = ''sidecar '' @ formatNat i @ '' accept: '' @ e"

definition startSlot :: "env \<Rightarrow> config \<Rightarrow> nat \<Rightarrow> Bot \<Rightarrow> started \<Rightarrow> history \<Rightarrow> (goerror + started) \<times> history" where
  "startSlot env cfg i b st h =
     (let token = botToken b;
          socketPath = scSocketPath (cfgSidecar cfg) @ ''.'' @ formatNat i;
          primary = (i = 0)
      in case NewServer env socketPath h of
           (Inl e, h1) \<Rightarrow> (Inl (sidecarErr i e), h1)
         | (Inr srv, h1) \<Rightarrow>
             (case StartSidecar env (scDir (cfgSidecar cfg)) socketPath token (dcGuildID (cfgDiscord cfg)) (cfgLogLevel cfg)
                     primary i h1 of
                (Inl e, h2) \<Rightarrow> (Inl (sidecarErr i e), snd (CloseServer env srv h2))
              | (Inr cmd, h2) \<Rightarrow>
                  (case Accept env 30 srv h2 of
                     (Inl e, h3) \<Rightarrow> (Inl (acceptErr i e), h3)
                   | (Inr c, h3) \<Rightarrow>
                       (Inr \<lparr>stSlots = stSlots st @ [\<lparr>slConn = Some c, slIndex = i, slPrimary = primary,
                              slToken = maskToken token, slBotDBID = botID b, slChannel = freeCh\<rparr>],
                             stServers = stServers st @ [srv], stCmds = stCmds st @ [cmd]\<rparr>, h3))))"

fun startSlots :: "env \<Rightarrow> config \<Rightarrow> nat \<Rightarrow> Bot list \<Rightarrow> started \<Rightarrow> history \<Rightarrow> (goerror + started) \<times> history" where
  "startSlots env cfg i [] st h = (Inr st, h)"
| "startSlots env cfg i (b # bots) st h =
     (case startSlot env cfg i b st h of
        (Inl e, h1) \<Rightarrow> (Inl e, h1)
      | (Inr st1, h1) \<Rightarrow> startSlots env cfg (Suc i) bots st1 h1)"

text \<open>\<^verbatim>\<open>run\<close> up to the construction of the manager.\<close>

definition signallerConfig :: "config \<Rightarrow> mxConfig" where
  "signallerConfig cfg = \<lparr>mxHomeserverURL = mcHomeserverURL (cfgMatrix cfg), mxASToken = mcASToken (cfgMatrix cfg),
     mxServerName = mcServerName (cfgMatrix cfg), mxLKJWTService = mcLKJWTService (cfgMatrix cfg)\<rparr>"

definition setupOf :: "config \<Rightarrow> database \<Rightarrow> signaller \<Rightarrow> started \<Rightarrow> bridgeSetup" where
  "setupOf cfg db sg st = \<lparr>
     suSlots = stSlots st, suSignaller = sg, suStore = Some db,
     suLkConfig = \<lparr>lkURL = lcURL (cfgLiveKit cfg), lkAPIKey = lcAPIKey (cfgLiveKit cfg),
                   lkAPISecret = lcAPISecret (cfgLiveKit cfg), lkRoomName = []\<rparr>,
     suGuildID = dcGuildID (cfgDiscord cfg), suServerName = mcServerName (cfgMatrix cfg),
     suLkJWTSvc = mcLKJWTService (cfgMatrix cfg),
     suSidecar = \<lparr>scfDir = scDir (cfgSidecar cfg), scfSocketBase = scSocketPath (cfgSidecar cfg),
                  scfLogLevel = cfgLogLevel cfg\<rparr>\<rparr>"

definition startRun :: "env \<Rightarrow> config \<Rightarrow> databaseFile \<Rightarrow> history \<Rightarrow> (goerror + bridgeSetup \<times> started) \<times> history" where
  "startRun env cfg file h =
     (case OpenDB env (cfgDatabase cfg) file h of
        (Inl e, h1) \<Rightarrow> (Inl (wrapErr ''open database'' e), h1)
      | (Inr db, h1) \<Rightarrow>
          (case seedTokens env (Tokens (cfgDiscord cfg)) (dcGuildID (cfgDiscord cfg)) (db, h1) of
             (db1, h2) \<Rightarrow>
               (case storeAllActiveBots env db1 h2 of
                  (Inl e, h3) \<Rightarrow> (Inl (wrapErr ''load bots'' e), h3)
                | (Inr bots, h3) \<Rightarrow>
                    (case NewSignaller env (signallerConfig cfg) h3 of
                       (Inl e, h4) \<Rightarrow> (Inl e, h4)
                     | (Inr sg, h4) \<Rightarrow>
                         (case startSlots env cfg 0 bots noneStarted h4 of
                            (Inl e, h5) \<Rightarrow> (Inl e, h5)
                          | (Inr st, h5) \<Rightarrow> (Inr (setupOf cfg db1 sg st, st), h5))))))"

text \<open>The command handler, present when there are admins, and the start of the sync loop.\<close>

definition startServing :: "env \<Rightarrow> config \<Rightarrow> mst \<Rightarrow> goerror option \<times> cmdHandler option \<times> mst" where
  "startServing env cfg s =
     (let (m, h) = s;
          handler = (if length (mcAdminUsers (cfgMatrix cfg)) > 0
            then Some (NewCommandHandler env (mcAdminUsers (cfgMatrix cfg)) (dcGuildID (cfgDiscord cfg)) h) else None)
      in case mgSignaller m of
           None \<Rightarrow> (None, handler, m, h)
         | Some sg \<Rightarrow> (case StartSync env sg h of (err, h1) \<Rightarrow> (map_option (wrapErr ''start sync'') err, handler, m, h1)))"

section \<open>The read loop of a slot\<close>

text \<open>How a read loop ends: the context is done, the sidecar says so, or it died; a primary one reports that.\<close>

datatype loopEnd = LoopCancelled | LoopShutdown | LoopDied "goerror option"

definition diedErr :: "nat \<Rightarrow> goerror \<Rightarrow> goerror" where
  "diedErr i e = ''primary sidecar (slot '' @ formatNat i @ '') died: '' @ e"

definition readError :: "env \<Rightarrow> nat \<Rightarrow> bool \<Rightarrow> goerror \<Rightarrow> mst \<Rightarrow> (loopEnd \<times> mst) option" where
  "readError env i primary e s =
     (if ctxErr env (snd s) \<noteq> None then Some (LoopCancelled, s)
      else map_option (Pair (LoopDied (if primary then Some (diedErr i e) else None))) (HandleSlotDeath env (int i) s))"

function readLoop :: "env \<Rightarrow> int \<Rightarrow> nat \<Rightarrow> bool \<Rightarrow> conn \<Rightarrow> mst \<Rightarrow> (loopEnd \<times> mst) option" where
  "readLoop env now i primary c s =
     (case ReadMessage now c of
        (Inl e, c1) \<Rightarrow> readError env i primary e s
      | (Inr msg, c1) \<Rightarrow>
          if msgType msg = MsgReady then readLoop env now i primary c1 s
          else if msgType msg = MsgShutdown then Some (LoopShutdown, s)
          else Option.bind (HandleMessage env i msg s) (\<lambda>r. readLoop env now i primary c1 (snd r)))"
  by pat_completeness auto
termination
proof (relation "measure (\<lambda>(env, now, i, primary, c, s). length (inbound c))", goal_cases)
  case 1
  then show ?case by simp
next
  case (2 env now i primary c s r c1 msg)
  then have "ReadMessage now c = (Inr msg, c1)" by simp
  from ReadMessage_Inr [OF this] show ?case by (simp add: encodeMessage_def)
next
  case (3 env now i primary c s r c1 msg x)
  then have "ReadMessage now c = (Inr msg, c1)" by simp
  from ReadMessage_Inr [OF this] show ?case by (simp add: encodeMessage_def)
qed

declare readLoop.simps [simp del]

section \<open>Shutdown\<close>

text \<open>
  The end of \<^verbatim>\<open>run\<close> with its deferred calls. When the context is cancelled every slot the program started with is
  told to shut down; when the primary sidecar died that is left out. Then the connections are closed, the manager
  is closed, the processes are terminated, killed if they do not end within five seconds, and the listeners and
  connections closed. \<^verbatim>\<open>ProcWait\<close> is the wait for all of them; its error is the timeout. In the code the messages
  are written by a goroutine of their own; here they come first.
\<close>

definition slotConns :: "slot list \<Rightarrow> nat list" where
  "slotConns slots = List.map_filter slConn slots"

definition reapSidecars :: "env \<Rightarrow> started \<Rightarrow> history \<Rightarrow> history" where
  "reapSidecars env st h =
     (let h1 = h @ map (Proc \<circ> ProcTerm) (stCmds st);
          (late, h2) = callErr env (Proc (ProcWait 5)) h1;
          h3 = (if late \<noteq> None then h2 @ map (Proc \<circ> ProcKill) (stCmds st) else h2);
          h4 = fold (\<lambda>srv h. snd (CloseServer env srv h)) (stServers st) h3
      in h4 @ map IpcClose (slotConns (stSlots st)))"

definition tellSlots :: "slot list \<Rightarrow> history \<Rightarrow> history" where
  "tellSlots slots h = h @ map (\<lambda>c. IpcWrite c shutdownMsg) (slotConns slots)"

definition deferredCalls :: "env \<Rightarrow> started \<Rightarrow> mst \<Rightarrow> mst option" where
  "deferredCalls env st s = map_option (\<lambda>(m, h). (m, reapSidecars env st h)) (CloseManager env s)"

definition shutdown :: "env \<Rightarrow> bool \<Rightarrow> started \<Rightarrow> mst \<Rightarrow> mst option" where
  "shutdown env cancelled st s =
     (let (m, h) = s;
          h1 = (if cancelled then tellSlots (stSlots st) h else h) @ map IpcClose (slotConns (stSlots st))
      in deferredCalls env st (m, h1))"

text \<open>
  All of \<^verbatim>\<open>run\<close>: the start, the events until the context is cancelled (\<open>died = None\<close>) or the primary sidecar dies
  (\<open>died\<close> is its error), the end. The result is the error it returns and the manager, if it got that far.
\<close>

definition run ::
  "env \<Rightarrow> config \<Rightarrow> databaseFile \<Rightarrow> bridgeEvent list \<Rightarrow> goerror option \<Rightarrow> history
    \<Rightarrow> (goerror option \<times> manager option \<times> history) option" where
  "run env cfg file evs died h =
     (case startRun env cfg file h of
        (Inl e, h1) \<Rightarrow> Some (Some e, None, h1)
      | (Inr (su, st), h1) \<Rightarrow>
          Option.bind (openManager env su h1) (\<lambda>s.
            case startServing env cfg s of
              (Some e, handler, s1) \<Rightarrow> map_option (\<lambda>(m, h2). (Some e, Some m, h2)) (deferredCalls env st s1)
            | (None, handler, s1) \<Rightarrow>
                Option.bind (foldM (bridgeStep env) evs s1) (\<lambda>s2.
                  map_option (\<lambda>(m, h2). (died, Some m, h2)) (shutdown env (died = None) st s2))))"

section \<open>The start\<close>

lemma startSlot_Inr:
  assumes "startSlot env cfg i b st h = (Inr st1, h1)"
  obtains c srv cmd where
    "st1 = \<lparr>stSlots = stSlots st @ [\<lparr>slConn = Some c, slIndex = i, slPrimary = (i = 0), slToken = maskToken (botToken b),
       slBotDBID = botID b, slChannel = freeCh\<rparr>], stServers = stServers st @ [srv], stCmds = stCmds st @ [cmd]\<rparr>"
  using assms by (auto simp: startSlot_def Let_def split: prod.splits sum.splits)

text \<open>The slot a bot gets.\<close>

definition slotOf :: "nat \<Rightarrow> Bot \<Rightarrow> slot \<Rightarrow> bool" where
  "slotOf i b sl \<longleftrightarrow> slConn sl \<noteq> None \<and> slIndex sl = i \<and> slPrimary sl = (i = 0) \<and> slToken sl = maskToken (botToken b) \<and>
     slBotDBID sl = botID b \<and> slChannel sl = freeCh"

lemma startSlots_Inr:
  "startSlots env cfg i bots st h = (Inr st1, h1) \<Longrightarrow> length (stSlots st) = i \<Longrightarrow>
   \<exists>new. stSlots st1 = stSlots st @ new \<and> length new = length bots \<and> (\<forall>k < length bots. slotOf (i + k) (bots ! k) (new ! k))"
proof (induction env cfg i bots st h rule: startSlots.induct)
  case (2 env cfg i b bots st h)
  obtain st2 h2 where one: "startSlot env cfg i b st h = (Inr st2, h2)" and rest: "startSlots env cfg (Suc i) bots st2 h2 = (Inr st1, h1)"
    using "2.prems"(1) by (auto split: prod.splits sum.splits)
  obtain sl where sl: "stSlots st2 = stSlots st @ [sl]" "slotOf i b sl"
    by (rule startSlot_Inr [OF one]) (auto simp: slotOf_def)
  obtain new where new: "stSlots st1 = stSlots st2 @ new" "length new = length bots"
      "\<forall>k < length bots. slotOf (Suc i + k) (bots ! k) (new ! k)"
    using "2.IH" [OF one [symmetric] refl rest] "2.prems"(2) sl(1) by auto
  have "slotOf (i + k) ((b # bots) ! k) ((sl # new) ! k)" if "k < length (b # bots)" for k
    using that sl(2) new(3) by (cases k) auto
  then show ?case using sl(1) new(1,2) by (intro exI [of _ "sl # new"]) simp
qed simp

lemma seedTokens_rooms [simp]: "dbRooms (fst (seedTokens env tokens g s)) = dbRooms (fst s)"
proof (induction tokens arbitrary: s)
  case (Cons t tokens)
  have "dbRooms (fst (snd (storeAddBot env t g s))) = dbRooms (fst s)"
    by (simp add: storeAddBot_def Let_def callErr_def split: prod.split option.split)
  then show ?case using Cons by (simp add: seedTokens_def)
qed (simp add: seedTokens_def)

lemma startRun_Inr:
  assumes "startRun env cfg file h = (Inr (su, st), h')"
  obtains db1 bots sg h1 h2 h3 h4 h5 where "seedTokens env (Tokens (cfgDiscord cfg)) (dcGuildID (cfgDiscord cfg)) (migrate file, h1) = (db1, h2)"
    and "storeAllActiveBots env db1 h2 = (Inr bots, h3)" and "NewSignaller env (signallerConfig cfg) h3 = (Inr sg, h4)"
    and "startSlots env cfg 0 bots noneStarted h4 = (Inr st, h5)" and "su = setupOf cfg db1 sg st"
  using assms by (auto simp: startRun_def OpenDB_def split: prod.splits sum.splits option.splits)

lemma startRun_setup:
  assumes "startRun env cfg file h = (Inr (su, st), h')" and "saneRooms (migrate file)" and "saneStates env"
  shows "sessionOK env su [] \<and>
    (\<exists>db. suStore su = Some db \<and> dbRooms db = dbRooms (migrate file) \<and>
       length (suSlots su) = length (filter brActive (dbBots db)) \<and>
       (\<forall>k < length (suSlots su). slPrimary (suSlots su ! k) = (k = 0) \<and>
          (\<exists>r \<in> set (dbBots db). brActive r \<and> slBotDBID (suSlots su ! k) = brID r \<and>
             slToken (suSlots su ! k) = maskToken (brToken r))))"
proof -
  obtain db1 bots sg h1 h2 h3 h4 h5 where
    seed: "seedTokens env (Tokens (cfgDiscord cfg)) (dcGuildID (cfgDiscord cfg)) (migrate file, h1) = (db1, h2)"
    and load: "storeAllActiveBots env db1 h2 = (Inr bots, h3)" and sg: "NewSignaller env (signallerConfig cfg) h3 = (Inr sg, h4)"
    and run: "startSlots env cfg 0 bots noneStarted h4 = (Inr st, h5)" and su: "su = setupOf cfg db1 sg st"
    by (rule startRun_Inr [OF assms(1)])
  obtain slots where slots: "stSlots st = slots" "length slots = length bots"
      "\<And>k. k < length bots \<Longrightarrow> slotOf k (bots ! k) (slots ! k)"
    using startSlots_Inr [OF run] by (auto simp: noneStarted_def)
  have rooms: "dbRooms db1 = dbRooms (migrate file)" using seedTokens_rooms seed by (metis fst_conv)
  have bots: "bots = map scanBot (pick (rangeOrder env h2) (filter brActive (dbBots db1)))"
    using load by (auto simp: storeAllActiveBots_def split: prod.splits option.splits)
  have len: "length bots = length (filter brActive (dbBots db1))"
    using bots by (metis length_map mset_pick size_mset)
  have row: "\<exists>r \<in> set (dbBots db1). brActive r \<and> botID (bots ! k) = brID r \<and> botToken (bots ! k) = brToken r"
    if "k < length bots" for k
  proof -
    have "bots ! k \<in> scanBot ` set (filter brActive (dbBots db1))"
      using nth_mem [OF that] by (simp only: bots set_map set_pick)
    then show ?thesis by (auto simp: scanBot_def)
  qed
  have fresh: "freshSlots (suSlots su)"
  proof -
    have "map slIndex slots = [0..<length slots]"
      using slots(2,3) by (intro nth_equalityI) (auto simp: slotOf_def)
    moreover have "slConn sl \<noteq> None \<and> slChannel sl = freeCh" if "sl \<in> set slots" for sl
      using that slots(2,3) by (auto simp: in_set_conv_nth slotOf_def)
    ultimately show ?thesis by (simp add: su setupOf_def slots(1) freshSlots_def)
  qed
  have "sgActive sg = []" using sg by (auto simp: NewSignaller_def split: prod.splits option.splits)
  then have ok: "sessionOK env su []"
    using fresh assms(2,3) rooms by (simp add: sessionOK_def su setupOf_def saneRooms_def)
  have "slPrimary (suSlots su ! k) = (k = 0) \<and> (\<exists>r \<in> set (dbBots db1). brActive r \<and> slBotDBID (suSlots su ! k) = brID r \<and>
      slToken (suSlots su ! k) = maskToken (brToken r))" if "k < length bots" for k
    using slots(3) [OF that] row [OF that] by (auto simp: su setupOf_def slots(1) slotOf_def)
  then show ?thesis using ok rooms len slots(2) by (intro conjI) (auto simp: su setupOf_def slots(1))
qed


text \<open>
  C15: A start that succeeds ends in a setup from which every session theorem applies: one connected free slot per
  active bot of the database, numbered by position, exactly the first one primary, each with its bot's id and only
  the masked token, a signaller without memberships, and the rooms of the database unchanged.
\<close>

theorem main_start:
  assumes "startRun env cfg file h = (Inr (su, st), h')" and "saneRooms (migrate file)" and "saneStates env"
  shows "sessionOK env su [] \<and>
    (\<exists>db. suStore su = Some db \<and> dbRooms db = dbRooms (migrate file) \<and>
       length (suSlots su) = length (filter brActive (dbBots db)) \<and>
       (\<forall>k < length (suSlots su). slPrimary (suSlots su ! k) = (k = 0) \<and>
          (\<exists>r \<in> set (dbBots db). brActive r \<and> slBotDBID (suSlots su ! k) = brID r \<and>
             slToken (suSlots su ! k) = maskToken (brToken r))))"
  by (rule startRun_setup [OF assms])


text \<open>What a failing start leaves behind.\<close>

lemma startSlot_Inl:
  assumes "startSlot env cfg i b st h = (Inl e, h1)"
  obtains new where "h1 = h @ new" and "\<forall>p. Proc (ProcKill p) \<notin> set new \<and> Proc (ProcTerm p) \<notin> set new"
    and "\<forall>c. IpcClose c \<notin> set new"
  using assms
  by (auto simp: startSlot_def NewServer_def StartSidecar_def Accept_def CloseServer_def callErr_def Let_def
      split: prod.splits sum.splits option.splits)

lemma startSlots_Inl:
  "startSlots env cfg i bots st h = (Inl e, h') \<Longrightarrow>
   \<exists>k st1 h1 new. k < length bots \<and> startSlots env cfg i (take k bots) st h = (Inr st1, h1) \<and>
     length (stCmds st1) = length (stCmds st) + k \<and> h' = h1 @ new \<and>
     (\<forall>p. Proc (ProcKill p) \<notin> set new \<and> Proc (ProcTerm p) \<notin> set new) \<and> (\<forall>c. IpcClose c \<notin> set new)"
proof (induction env cfg i bots st h rule: startSlots.induct)
  case (2 env cfg i b bots st h)
  show ?case
  proof (cases "startSlot env cfg i b st h")
    case (Pair r h1)
    show ?thesis
    proof (cases r)
      case (Inl e1)
      then have "startSlot env cfg i b st h = (Inl e, h')" using "2.prems" Pair by simp
      then obtain new where "h' = h @ new" "\<forall>p. Proc (ProcKill p) \<notin> set new \<and> Proc (ProcTerm p) \<notin> set new" "\<forall>c. IpcClose c \<notin> set new"
        by (rule startSlot_Inl)
      then show ?thesis by (intro exI [of _ 0] exI [of _ st] exI [of _ h] exI [of _ new]) simp
    next
      case (Inr st2)
      have more: "length (stCmds st2) = Suc (length (stCmds st))"
        by (rule startSlot_Inr [OF Pair [unfolded Inr]]) simp
      have "startSlots env cfg (Suc i) bots st2 h1 = (Inl e, h')" using "2.prems" Pair Inr by simp
      from "2.IH" [OF Pair [symmetric] Inr this] obtain k st1 h3 new where
        "k < length bots" "startSlots env cfg (Suc i) (take k bots) st2 h1 = (Inr st1, h3)"
        "length (stCmds st1) = length (stCmds st2) + k" "h' = h3 @ new"
        "\<forall>p. Proc (ProcKill p) \<notin> set new \<and> Proc (ProcTerm p) \<notin> set new" "\<forall>c. IpcClose c \<notin> set new"
        by blast
      then show ?thesis
        using Pair Inr more by (intro exI [of _ "Suc k"] exI [of _ st1] exI [of _ h3] exI [of _ new]) simp
    qed
  qed
qed simp

section \<open>The read loop\<close>

definition loopHandle :: "env \<Rightarrow> nat \<Rightarrow> message \<Rightarrow> mst \<Rightarrow> mst option" where
  "loopHandle env i msg s = (if msgType msg = MsgReady then Some s else map_option snd (HandleMessage env i msg s))"

lemma loopHandle_ready: "msgType msg = MsgReady \<Longrightarrow> loopHandle env i msg s = Some s"
  by (simp add: loopHandle_def)

lemma loop_messages:
  "readLoop env now i primary c s =
     (case readAll now c of (msgs, e) \<Rightarrow>
        let before = takeWhile (\<lambda>msg. msgType msg \<noteq> MsgShutdown) msgs in
        Option.bind (foldM (loopHandle env i) before s)
          (\<lambda>s1. if length before < length msgs then Some (LoopShutdown, s1) else readError env i primary e s1))"
proof (induction env now i primary c s rule: readLoop.induct)
  case (1 env now i primary c s)
  obtain r c1 where read: "ReadMessage now c = (r, c1)" by fastforce
  show ?case
  proof (cases r)
    case (Inl e)
    then show ?thesis using read by (subst readLoop.simps, subst readAll.simps) simp
  next
    case (Inr msg)
    obtain ms e where rest: "readAll now c1 = (ms, e)" by fastforce
    have all: "readAll now c = (msg # ms, e)" using read rest Inr by (subst readAll.simps) simp
    consider "msgType msg = MsgReady" | "msgType msg = MsgShutdown" | "msgType msg \<noteq> MsgReady" "msgType msg \<noteq> MsgShutdown"
      by blast
    then show ?thesis
    proof cases
      case 1
      then have "msgType msg \<noteq> MsgShutdown" by (simp add: msg_types)
      then show ?thesis
        using "1.IH"(1) [OF read [symmetric] Inr 1] 1 read Inr rest
        by (subst readLoop.simps) (simp add: all loopHandle_ready Let_def)
    next
      case 2
      then have "msgType msg \<noteq> MsgReady" by (simp add: msg_types)
      then show ?thesis using 2 read Inr by (subst readLoop.simps) (simp add: all Let_def)
    next
      case 3
      have IH: "readLoop env now i primary c1 s1 = Option.bind (foldM (loopHandle env i) (takeWhile (\<lambda>msg. msgType msg \<noteq> MsgShutdown) ms) s1)
          (\<lambda>s1. if length (takeWhile (\<lambda>msg. msgType msg \<noteq> MsgShutdown) ms) < length ms then Some (LoopShutdown, s1)
             else readError env i primary e s1)" if "HandleMessage env i msg s = Some (x, s1)" for x s1
        using "1.IH"(2) [OF read [symmetric] Inr 3] that rest by (simp add: Let_def)
      show ?thesis
        using 3 read Inr IH
        by (subst readLoop.simps) (cases "HandleMessage env i msg s", auto simp: all loopHandle_def Let_def)
    qed
  qed
qed


text \<open>
  C16: The read loop of a slot does what the message sequence says: it handles the messages the sidecar's byte
  stream decodes to, one after the other and READY without an effect, up to the first SHUTDOWN; without one it
  ends with the death of the slot, or quietly when the program is being stopped.
\<close>

theorem main_read_loop:
  "readLoop env now i primary c s =
     (case readAll now c of (msgs, e) \<Rightarrow>
        let before = takeWhile (\<lambda>msg. msgType msg \<noteq> MsgShutdown) msgs in
        Option.bind (foldM (loopHandle env i) before s)
          (\<lambda>s1. if length before < length msgs then Some (LoopShutdown, s1) else readError env i primary e s1))"
  by (rule loop_messages)







section \<open>Bots that come back\<close>

lemma seedTokens_Cons: "seedTokens env (t # ts) g s = seedTokens env ts g (snd (storeAddBot env t g s))"
  by (simp add: seedTokens_def)

lemma seedTokens_keeps: "set (dbBots (fst s)) \<subseteq> set (dbBots (fst (seedTokens env tokens g s)))"
proof (induction tokens arbitrary: s)
  case (Cons t ts)
  have "set (dbBots (fst s)) \<subseteq> set (dbBots (fst (snd (storeAddBot env t g s))))"
    by (auto simp: storeAddBot_def Let_def split: prod.split option.split)
  then show ?case unfolding seedTokens_Cons by (rule subset_trans [OF _ Cons.IH])
qed (simp add: seedTokens_def)

text \<open>With a working driver a token that is not in the table comes in as an active bot; known tokens are left alone.\<close>

lemma seedTokens_adds:
  assumes "\<And>h e. askErr env h e = None" and "token \<in> set tokens" and "token \<notin> brToken ` set (dbBots (fst s))"
  shows "\<exists>r \<in> set (dbBots (fst (seedTokens env tokens g s))). brToken r = token \<and> brActive r"
  using assms(2,3)
proof (induction tokens arbitrary: s)
  case (Cons t ts)
  obtain db h where s: "s = (db, h)" by (cases s)
  show ?case
  proof (cases "t = token")
    case True
    then have "\<exists>r \<in> set (dbBots (fst (snd (storeAddBot env t g s)))). brToken r = token \<and> brActive r"
      using Cons.prems(2) assms(1) by (auto simp: s storeAddBot_def callErr_def Let_def)
    then show ?thesis using seedTokens_keeps by (fastforce simp: seedTokens_Cons)
  next
    case False
    then have "token \<notin> brToken ` set (dbBots (fst (snd (storeAddBot env t g s))))"
      using Cons.prems(2) by (auto simp: s storeAddBot_def Let_def split: prod.split option.split)
    then show ?thesis using Cons.IH Cons.prems(1) False by (auto simp: seedTokens_Cons)
  qed
qed simp

lemma seedTokens_known:
  assumes "token \<in> brToken ` set (dbBots (fst s))" and "r \<in> set (dbBots (fst (seedTokens env tokens g s)))" and "brToken r = token"
  shows "r \<in> set (dbBots (fst s))"
  using assms(1,2)
proof (induction tokens arbitrary: s)
  case (Cons t ts)
  obtain db h where s: "s = (db, h)" by (cases s)
  let ?s1 = "snd (storeAddBot env t g s)"
  have "token \<in> brToken ` set (dbBots (fst ?s1))"
    using Cons.prems(1) by (auto simp: s storeAddBot_def Let_def split: prod.split option.split)
  then have "r \<in> set (dbBots (fst ?s1))" using Cons.IH Cons.prems(2) by (simp add: seedTokens_Cons)
  then show ?case
    using Cons.prems(1) assms(3) by (auto simp: s storeAddBot_def Let_def split: prod.splits option.splits if_splits)
qed (simp add: seedTokens_def)

text \<open>
  A removed bot whose token is in the configuration is back, active, after the next start: its row is
  deleted, and the seeding at the start inserts a new one. Deactivating the row would have kept it out for good.
\<close>

theorem main_removed_bot_returns:
  assumes "\<And>h e. askErr env h e = None" and "distinct (map brToken (dbBots db))" and "r \<in> set (dbBots db)"
    and "brToken r \<in> set tokens"
  shows "brToken r \<notin> brToken ` set (dbBots (fst (snd (storeRemoveBot env (brID r) (db, h))))) \<and>
    (\<exists>r' \<in> set (dbBots (fst (seedTokens env tokens g (snd (storeRemoveBot env (brID r) (db, h)))))).
       brToken r' = brToken r \<and> brActive r') \<and>
    (\<forall>r' \<in> set (dbBots (fst (seedTokens env tokens g (snd (storeDeactivateBot env (brToken r) (db, h)))))).
       brToken r' = brToken r \<longrightarrow> \<not> brActive r')"
proof -
  let ?gone = "snd (storeRemoveBot env (brID r) (db, h))"
  let ?off = "snd (storeDeactivateBot env (brToken r) (db, h))"
  have "r' = r" if "r' \<in> set (dbBots db)" "brToken r' = brToken r" for r'
    using assms(2,3) that by (simp add: distinct_map inj_on_def)
  then have gone: "brToken r \<notin> brToken ` set (dbBots (fst ?gone))"
    using assms(1) by (auto simp: storeRemoveBot_def callErr_def Let_def)
  have off: "dbBots (fst ?off) = map (\<lambda>x. if brToken x = brToken r then x\<lparr>brActive := False\<rparr> else x) (dbBots db)"
    using assms(1) by (simp add: storeDeactivateBot_def callErr_def Let_def)
  have "\<not> brActive r'" if "r' \<in> set (dbBots (fst (seedTokens env tokens g ?off)))" "brToken r' = brToken r" for r'
  proof -
    have "r\<lparr>brActive := False\<rparr> \<in> set (dbBots (fst ?off))" unfolding off set_map by (rule image_eqI [OF _ assms(3)]) simp
    then have "brToken r \<in> brToken ` set (dbBots (fst ?off))" by (rule rev_image_eqI) simp
    from seedTokens_known [OF this that] have "r' \<in> set (dbBots (fst ?off))" .
    then show ?thesis using that(2) by (auto simp: off split: if_splits)
  qed
  then show ?thesis using gone seedTokens_adds [OF assms(1,4) gone] by blast
qed


section \<open>A start that fails\<close>

text \<open>
  C40: When a sidecar cannot be started, the ones started before it are left running: after the last successful
  start nothing terminates a process or closes a connection, because the clean-up is only registered behind the
  loop.
\<close>

theorem main_start_leaks:
  assumes "startSlots env cfg 0 bots noneStarted h = (Inl e, h')"
  shows "\<exists>k st h1 new. k < length bots \<and> startSlots env cfg 0 (take k bots) noneStarted h = (Inr st, h1) \<and>
     length (stCmds st) = k \<and> h' = h1 @ new \<and>
     (\<forall>p. Proc (ProcKill p) \<notin> set new \<and> Proc (ProcTerm p) \<notin> set new) \<and> (\<forall>c. IpcClose c \<notin> set new)"
  using startSlots_Inl [OF assms] by (simp add: noneStarted_def)

section \<open>Log levels\<close>

text \<open>
  For the four levels it knows, the \<^verbatim>\<open>!log-level\<close> command sets the same level as the configuration, in
  any capitalisation; it refuses \<^verbatim>\<open>error\<close>, which the configuration takes, and everything the
  configuration silently reads as \<^verbatim>\<open>info\<close>.
\<close>

theorem main_log_levels:
  assumes "asciiCase env" and "\<forall>c \<in> set w. (of_char c :: nat) < 128"
  shows "snd (cmdLogLevel env (w # args)) =
    (if asciiLower w \<in> {''info'', ''debug'', ''trace'', ''warn''} then Some (parseLogLevel (asciiLower w)) else None)"
proof -
  have "ucLower env w = asciiLower w" using assms unfolding asciiCase_def by blast
  then show ?thesis by (auto simp: cmdLogLevel_def parseLogLevel_def)
qed

section \<open>Shutting down\<close>










section \<open>Examples\<close>

definition demoBots :: "Bot list" where
  "demoBots = [\<lparr>botID = 1, botToken = ''tok1'', botGuildID = ''1'', botActive = True\<rparr>,
               \<lparr>botID = 2, botToken = ''tok2'', botGuildID = ''1'', botActive = True\<rparr>]"

definition demoConfig :: config where
  "demoConfig = defaultConfig\<lparr>cfgDiscord := \<lparr>dcBotToken = ''tok1'', dcBotTokens = [], dcGuildID = ''1''\<rparr>\<rparr>"

definition emptyFile :: databaseFile where
  "emptyFile = \<lparr>dfBots = None, dfRooms = None, dfGuilds = None\<rparr>"

lemma demoRun: "\<exists>su st h'. startRun calmEnv demoConfig emptyFile [] = (Inr (su, st), h')"
  by (simp add: startRun_def OpenDB_def callErr_def emptyFile_def migrate_def seedTokens_def storeAddBot_def demoConfig_def
      defaultConfig_def Tokens_def storeAllActiveBots_def scanBot_def NewSignaller_def startSlot_def NewServer_def
      StartSidecar_def Accept_def Let_def)

theorem main_start_witness:
  "\<exists>su st h'. startRun calmEnv demoConfig emptyFile [] = (Inr (su, st), h') \<and> sessionOK calmEnv su []"
proof -
  obtain su st h' where r: "startRun calmEnv demoConfig emptyFile [] = (Inr (su, st), h')" using demoRun by blast
  have "saneRooms (migrate emptyFile)" by (simp add: saneRooms_def migrate_def emptyFile_def gkeys_def)
  from main_start [OF r this saneStates_calm] r show ?thesis by blast
qed


theorem main_removed_bot_returns_witness:
  "\<exists>r' \<in> set (dbBots (fst (seedTokens calmEnv [''tok''] ''1'' (snd (storeRemoveBot calmEnv 1
       (\<lparr>dbBots = [\<lparr>brID = 1, brToken = ''tok'', brGuild = ''1'', brActive = True\<rparr>], dbBotSeq = 1, dbRooms = [], dbGuilds = []\<rparr>, [])))))).
     brToken r' = ''tok'' \<and> brActive r'"
  using main_removed_bot_returns [of calmEnv
      "\<lparr>dbBots = [\<lparr>brID = 1, brToken = ''tok'', brGuild = ''1'', brActive = True\<rparr>], dbBotSeq = 1, dbRooms = [], dbGuilds = []\<rparr>"
      "\<lparr>brID = 1, brToken = ''tok'', brGuild = ''1'', brActive = True\<rparr>" "[''tok'']" "[]" "''1''"]
  by simp

text \<open>The second sidecar never connects: two processes have been started and none is ended.\<close>

definition deafEnv :: env where
  "deafEnv = calmEnv\<lparr>askErr := (\<lambda>h e. if e = Proc (SockAccept ''/tmp/discord-voice-bridge.sock.1'' 30) then Some ''timeout'' else None)\<rparr>"

lemma deafStart:
  "startSlots deafEnv defaultConfig 0 demoBots noneStarted [] = (Inl ''sidecar 1 accept: accept: timeout'',
     snd (startSlots deafEnv defaultConfig 0 demoBots noneStarted []))"
  by code_simp

theorem main_start_leaks_witness:
  "\<exists>k st h1 new. k < length demoBots \<and> startSlots deafEnv defaultConfig 0 (take k demoBots) noneStarted [] = (Inr st, h1) \<and>
     length (stCmds st) = k \<and> snd (startSlots deafEnv defaultConfig 0 demoBots noneStarted []) = h1 @ new"
  using main_start_leaks [OF deafStart] by blast

theorem main_log_levels_witness:
  "snd (cmdLogLevel calmEnv [''Debug'']) = Some LevelDebug \<and> snd (cmdLogLevel calmEnv [''error'']) = None"
proof -
  have "asciiLower ''Debug'' = ''debug''" "asciiLower ''error'' = ''error''" by code_simp+
  then show ?thesis
    using main_log_levels [OF asciiCase_calm, of "''Debug''" "[]"] main_log_levels [OF asciiCase_calm, of "''error''" "[]"]
    by (simp add: parseLogLevel_def)
qed



end
