(* ===== verification/Program.thy ===== *)
theory Program
  imports MainLoop
begin

text \<open>
  \<^verbatim>\<open>main\<close> itself: the configuration, the log level, \<^verbatim>\<open>run\<close> and the exit code, and the two goroutines that \<^verbatim>\<open>run\<close>
  leaves beside the read loops, which only log.
\<close>

text \<open>
  The level of a log record as it is printed: the attribute with the key \<^verbatim>\<open>level\<close> is replaced when it is the
  bridge's own level; \<open>None\<close> leaves it as it is.
\<close>

definition replaceLevel :: "string \<Rightarrow> int option \<Rightarrow> string option" where
  "replaceLevel key level = (if key = ''level'' \<and> level = Some LevelTrace then Some ''TRACE'' else None)"


text \<open>The goroutine that waits for a process reports its end unless the context is done.\<close>

definition watchSidecar :: "env \<Rightarrow> history \<Rightarrow> bool" where
  "watchSidecar env h \<longleftrightarrow> ctxErr env h = None"

text \<open>The statistics: one line a minute until the context is done, here the uptime in minutes and what \<^verbatim>\<open>Stats\<close> says.\<close>

datatype statsEvent = MinuteOver manager | StatsDone

fun statsLoop :: "nat \<Rightarrow> statsEvent list \<Rightarrow> (nat \<times> nat \<times> nat \<times> nat \<times> nat) list" where
  "statsLoop up [] = []"
| "statsLoop up (StatsDone # es) = []"
| "statsLoop up (MinuteOver m # es) = (Suc up, Stats m) # statsLoop (Suc up) es"






end
