(* ===== verification/TestTools.thy ===== *)
theory TestTools
  imports MainLoop "HOL-Library.Signed_Division"
begin

text \<open>
  The manual test programs: \<^verbatim>\<open>cmd/bridgetest\<close> starts one sidecar and counts what it sends, \<^verbatim>\<open>cmd/davetest\<close>
  receives voice with the \<^verbatim>\<open>disgo\<close> library, \<^verbatim>\<open>cmd/gentoken\<close> prints a LiveKit token. \<^verbatim>\<open>os.Exit\<close> runs no
  deferred call.
\<close>

section \<open>bridgetest\<close>

record tester =
  ttFrames :: int
  ttUsers :: "(u64, bool) gomap"

definition noFrames :: tester where
  "noFrames = \<lparr>ttFrames = 0, ttUsers = []\<rparr>"

text \<open>The 64-bit counter of frames is read as an integer: at fifty frames a second it does not overflow.\<close>

definition testMessage :: "message \<Rightarrow> tester \<Rightarrow> tester" where
  "testMessage msg t =
     (if msgType msg = MsgUserJoin
      then (if \<not> ggetz False (ttUsers t) (msgUserID msg) then t\<lparr>ttUsers := gput (msgUserID msg) True (ttUsers t)\<rparr> else t)
      else if msgType msg = MsgUserLeave then t\<lparr>ttUsers := gdel (msgUserID msg) (ttUsers t)\<rparr>
      else if msgType msg = MsgAudioFromDiscord then t\<lparr>ttFrames := ttFrames t + 1\<rparr>
      else t)"

text \<open>The read loop: the counts when the connection fails, and the error.\<close>

function testLoop :: "int \<Rightarrow> conn \<Rightarrow> tester \<Rightarrow> goerror \<times> tester" where
  "testLoop now c t =
     (case ReadMessage now c of
        (Inl e, c1) \<Rightarrow> (e, t)
      | (Inr msg, c1) \<Rightarrow> testLoop now c1 (testMessage msg t))"
  by pat_completeness auto
termination
proof (relation "measure (\<lambda>(now, c, t). length (inbound c))", goal_cases)
  case (2 now c t r c1 msg)
  then have "ReadMessage now c = (Inr msg, c1)" by simp
  from ReadMessage_Inr [OF this] show ?case by (simp add: encodeMessage_def)
qed simp

declare testLoop.simps [simp del]

text \<open>
  \<^verbatim>\<open>main\<close>: \<open>c\<close> is what the accepted connection delivers. The result is the exit code and the counts. The read loop
  ends when the sidecar closes the connection; if the context is done then, the goroutine that waits for it has
  sent SHUTDOWN. Then the connection is closed, the process terminated and waited for (without a limit, which is
  written as 0), and the listener closed.
\<close>

definition testSocket :: string where
  "testSocket = ''/tmp/discord-voice-bridge.sock''"

definition testMain :: "env \<Rightarrow> string \<Rightarrow> string \<Rightarrow> int \<Rightarrow> conn \<Rightarrow> history \<Rightarrow> nat \<times> tester \<times> history" where
  "testMain env token guild now c h =
     (if token = [] \<or> guild = [] then (1, noFrames, h)
      else case NewServer env testSocket h of
             (Inl e, h1) \<Rightarrow> (1, noFrames, h1)
           | (Inr srv, h1) \<Rightarrow>
               (case StartSidecar env ''sidecar'' testSocket token guild ''info'' True 0 h1 of
                  (Inl e, h2) \<Rightarrow> (1, noFrames, h2)
                | (Inr cmd, h2) \<Rightarrow>
                    (case Accept env 30 srv h2 of
                       (Inl e, h3) \<Rightarrow> (1, noFrames, h3)
                     | (Inr conn, h3) \<Rightarrow>
                         let t = snd (testLoop now c noFrames);
                             h4 = (if ctxErr env h3 \<noteq> None then h3 @ [IpcWrite conn shutdownMsg] else h3);
                             h5 = h4 @ [IpcClose conn, Proc (ProcTerm cmd), Proc (ProcWait 0)]
                         in (0, t, snd (CloseServer env srv h5)))))"

text \<open>The counts are those of the messages read.\<close>

lemma testLoop_messages:
  "testLoop now c t = (snd (readAll now c), fold testMessage (fst (readAll now c)) t)"
proof (induction now c t rule: testLoop.induct)
  case (1 now c t)
  obtain r c1 where r: "ReadMessage now c = (r, c1)" by (cases "ReadMessage now c")
  show ?case
  proof (cases r)
    case (Inl e)
    then show ?thesis by (simp add: testLoop.simps [of now c] readAll.simps [of now c] r)
  next
    case (Inr msg)
    have "testLoop now c1 (testMessage msg t) = (snd (readAll now c1), fold testMessage (fst (readAll now c1)) (testMessage msg t))"
      using "1.IH" [OF r [symmetric] Inr] by simp
    then show ?thesis by (simp add: testLoop.simps [of now c] readAll.simps [of now c] r Inr split: prod.split)
  qed
qed

text \<open>Whether a user is there after the messages: the last one about the user counts.\<close>

fun presentAfter :: "u64 \<Rightarrow> message list \<Rightarrow> bool \<Rightarrow> bool" where
  "presentAfter u [] b = b"
| "presentAfter u (m # ms) b =
     presentAfter u ms
       (if msgUserID m = u \<and> msgType m = MsgUserJoin then True
        else if msgUserID m = u \<and> msgType m = MsgUserLeave then False else b)"

lemma testMessage_counts:
  "ttFrames (fold testMessage ms t) = ttFrames t + int (length (filter (\<lambda>m. msgType m = MsgAudioFromDiscord) ms))"
  "ggetz False (ttUsers (fold testMessage ms t)) u = presentAfter u ms (ggetz False (ttUsers t) u)"
  by (induction ms arbitrary: t) (auto simp: testMessage_def msg_types)

text \<open>
  The test program counts what the bridge would read: however the bytes come, the frames are the audio frames among
  the messages the connection delivers, and a user is listed exactly when the last message about him was a join.
\<close>

theorem bridgetest_counts:
  "let t = snd (testLoop now c noFrames); ms = fst (readAll now c)
   in ttFrames t = int (length (filter (\<lambda>m. msgType m = MsgAudioFromDiscord) ms)) \<and>
      (\<forall>u. ggetz False (ttUsers t) u = presentAfter u ms False)"
  by (simp add: testLoop_messages testMessage_counts noFrames_def)

section \<open>davetest\<close>

text \<open>The receiver counts frames in an \<^verbatim>\<open>atomic.Int64\<close> and logs the first of every fifty.\<close>

definition ReceiveOpusFrame :: "u64 \<Rightarrow> u64 \<times> bool" where
  "ReceiveOpusFrame c = (let n = c + 1 in (n, sint n smod 50 = 1))"

text \<open>The calls to the library, in order; \<open>fails\<close> says which of them return an error.\<close>

datatype disgoCall = DgNew | DgOpenGateway | DgWaitSignal | DgClose | DgCreateConn | DgOpen | DgSetReceiver

definition daveMain :: "(disgoCall \<Rightarrow> bool) \<Rightarrow> string \<Rightarrow> u64 \<Rightarrow> u64 \<Rightarrow> nat \<times> disgoCall list" where
  "daveMain fails token guild channel =
     (if token = [] \<or> guild = 0 \<or> channel = 0 then (1, [])
      else if fails DgNew then (1, [DgNew])
      else if fails DgOpenGateway then (1, [DgNew, DgOpenGateway])
      else (0, [DgNew, DgOpenGateway, DgWaitSignal, DgClose]))"

definition joinAndReceive :: "(disgoCall \<Rightarrow> bool) \<Rightarrow> disgoCall list" where
  "joinAndReceive fails =
     [DgCreateConn, DgOpen] @ (if fails DgOpen then [] else [DgSetReceiver])"

section \<open>gentoken\<close>

text \<open>
  Signing is a parameter: it gets the key, the secret, the room, the identity and the validity in hours. The
  result is the exit code and what is printed on the output.
\<close>

definition gentoken ::
  "(string \<Rightarrow> string \<Rightarrow> string \<Rightarrow> string \<Rightarrow> nat \<Rightarrow> goerror + string) \<Rightarrow> string list \<Rightarrow> string \<Rightarrow> string \<Rightarrow> int \<Rightarrow> nat \<times> string" where
  "gentoken sign args key secret now =
     (if length args < 2 then (1, [])
      else let room = args ! 1
           in if key = [] \<or> secret = [] then (1, [])
              else case sign key secret room (''listener-'' @ formatInt now) (24 * 30) of
                     Inl e \<Rightarrow> (1, [])
                   | Inr token \<Rightarrow> (0, token @ [CHR 0x0A]))"

end
