(* ===== verification/Peer.thy ===== *)
theory Peer
  imports BridgeRun
begin

text \<open>
  The wire code of the other end, \<^verbatim>\<open>sidecar/index.mjs\<close>: what it writes to the socket, how it cuts the byte
  stream into frames, how it reads the list of Matrix users. Strings are their UTF-8 bytes. \<open>None\<close> is the
  \<^verbatim>\<open>RangeError\<close> of a \<^verbatim>\<open>Buffer\<close> method.
\<close>

section \<open>Frames\<close>

text \<open>\<^verbatim>\<open>writeMessage\<close>: \<^verbatim>\<open>writeUInt16LE\<close> refuses a length above 65535.\<close>

definition peerWrite :: "message \<Rightarrow> bytes option" where
  "peerWrite msg =
     (if length (msgPayload msg) \<le> 65535
      then Some ([msgType msg] @ putUint64 (msgUserID msg) @ putUint16 (of_nat (length (msgPayload msg))) @ msgPayload msg)
      else None)"

text \<open>The loop of \<^verbatim>\<open>IPCReader.feed\<close>: the messages handed out, and the buffer that is left.\<close>

function peerFrames :: "bytes \<Rightarrow> message list \<times> bytes" where
  "peerFrames buf =
     (if length buf < 11 then ([], buf)
      else let payloadLen = unat (the (leUint16 (drop 9 buf))); totalLen = 11 + payloadLen
           in if length buf < totalLen then ([], buf)
              else case peerFrames (drop totalLen buf) of
                     (ms, rest) \<Rightarrow>
                       (\<lparr>msgType = buf ! 0, msgUserID = the (leUint64 (drop 1 buf)),
                          msgPayload = take payloadLen (drop 11 buf)\<rparr> # ms, rest))"
  by pat_completeness auto
termination
  by (relation "measure length") auto

declare peerFrames.simps [simp del]

text \<open>The data as it arrives, chunk by chunk.\<close>

fun peerFeed :: "bytes list \<Rightarrow> bytes \<Rightarrow> message list \<times> bytes" where
  "peerFeed [] buf = ([], buf)"
| "peerFeed (d # ds) buf =
     (case peerFrames (buf @ d) of
        (ms, buf1) \<Rightarrow> (case peerFeed ds buf1 of (ms1, buf2) \<Rightarrow> (ms @ ms1, buf2)))"

section \<open>Payloads\<close>

text \<open>\<^verbatim>\<open>voiceStatePayload\<close> and \<^verbatim>\<open>userInfoPayload\<close>; they are also used for a channel of the list.\<close>

definition peerVoicePayload :: "u64 \<Rightarrow> string \<Rightarrow> u64 \<Rightarrow> bytes option" where
  "peerVoicePayload ch name category =
     (if length name \<le> 65535
      then Some (putUint64 ch @ putUint64 category @ putUint16 (of_nat (length name)) @ bytesOf name)
      else None)"

definition peerUserPayload :: "string \<Rightarrow> string \<Rightarrow> bytes option" where
  "peerUserPayload name avatar =
     (if length name \<le> 65535 \<and> length avatar \<le> 65535
      then Some (putUint16 (of_nat (length name)) @ bytesOf name @ putUint16 (of_nat (length avatar)) @ bytesOf avatar)
      else None)"

text \<open>The loop of \<^verbatim>\<open>updateBotNickname\<close> over the payload, from an offset on.\<close>

fun peerNames :: "nat \<Rightarrow> nat \<Rightarrow> bytes \<Rightarrow> string list option" where
  "peerNames 0 offset p = Some []"
| "peerNames (Suc n) offset p =
     (if offset < length p
      then (case leUint16 (drop offset p) of
              None \<Rightarrow> None
            | Some w \<Rightarrow>
                let start = offset + 2; l = unat w
                in map_option (\<lambda>r. if start + l \<le> length p then strOf (take l (drop start p)) # r else r)
                     (peerNames n (start + l) p))
      else Some [])"

definition peerUsers :: "bytes \<Rightarrow> string list option" where
  "peerUsers p = (if length p < 2 then Some [] else peerNames (unat (the (leUint16 p))) 2 p)"

section \<open>The readers agree\<close>

lemma drop_frame:
  "length buf \<ge> 11 + n \<Longrightarrow> n = unat (the (leUint16 (drop 9 buf))) \<Longrightarrow>
   buf = encodeMessage \<lparr>msgType = buf ! 0, msgUserID = the (leUint64 (drop 1 buf)), msgPayload = take n (drop 11 buf)\<rparr> @ drop (11 + n) buf"
proof -
  assume l: "length buf \<ge> 11 + n" and n: "n = unat (the (leUint16 (drop 9 buf)))"
  have w: "leUint16 (drop 9 (take 11 buf)) = leUint16 (drop 9 buf)" and u: "leUint64 (drop 1 (take 11 buf)) = leUint64 (drop 1 buf)"
    using l by (simp_all add: leUint16_def leUint64_def drop_take)
  have "take 11 buf = frameHeader \<lparr>msgType = take 11 buf ! 0, msgUserID = the (leUint64 (drop 1 (take 11 buf))),
      msgPayload = take n (drop 11 buf)\<rparr>"
    by (rule frameHeader_unfold) (use l n in \<open>simp_all add: w\<close>)
  then have h: "frameHeader \<lparr>msgType = buf ! 0, msgUserID = the (leUint64 (drop 1 buf)), msgPayload = take n (drop 11 buf)\<rparr> = take 11 buf"
    by (simp only: u) simp
  have "buf = take 11 buf @ take n (drop 11 buf) @ drop (11 + n) buf"
    by (metis add.commute append_take_drop_id drop_drop)
  then show ?thesis by (simp add: encodeMessage_def h del: One_nat_def)
qed

lemma peerFrames_encode:
  assumes "fitsFrame m"
  shows "peerFrames (encodeMessage m @ rest) = (case peerFrames rest of (ms, r) \<Rightarrow> (m # ms, r))"
proof -
  let ?b = "encodeMessage m @ rest"
  have w: "unat (the (leUint16 (drop 9 ?b))) = length (msgPayload m)"
    using frameHeader_fields(3) [of m] fitsFrame_wireLen [OF assms] by (simp add: encodeMessage_def leUint16_def)
  have u: "the (leUint64 (drop 1 ?b)) = msgUserID m"
    using frameHeader_fields(2) [of m] by (simp add: encodeMessage_def leUint64_def)
  have t: "?b ! 0 = msgType m" by (simp add: encodeMessage_def frameHeader_def)
  show ?thesis
    using w u t by (subst peerFrames.simps) (simp add: encodeMessage_def split: prod.split)
qed

lemma peerFrames_cases:
  obtains "peerFrames buf = ([], buf)" and "\<And>m r. fitsFrame m \<Longrightarrow> buf \<noteq> encodeMessage m @ r"
  | m rest where "fitsFrame m" and "buf = encodeMessage m @ rest"
proof (cases "\<exists>m rest. fitsFrame m \<and> buf = encodeMessage m @ rest")
  case True
  then show ?thesis using that(2) by blast
next
  case False
  let ?n = "unat (the (leUint16 (drop 9 buf)))"
  have "\<not> 11 + ?n \<le> length buf"
  proof
    assume l: "11 + ?n \<le> length buf"
    have "?n < 65536" using unsigned_less [of "the (leUint16 (drop 9 buf))"] by simp
    then show False using drop_frame [OF l refl] False by (auto simp: fitsFrame_def)
  qed
  then have "peerFrames buf = ([], buf)" by (subst peerFrames.simps) (simp add: Let_def)
  then show ?thesis using that(1) False by blast
qed

lemma peerFrames_append:
  "peerFrames (a @ b) = (case peerFrames a of (ms, r) \<Rightarrow> (case peerFrames (r @ b) of (ms1, r1) \<Rightarrow> (ms @ ms1, r1)))"
proof (induction "length a" arbitrary: a rule: less_induct)
  case less
  show ?case
  proof (cases rule: peerFrames_cases [of a])
    case 1
    then show ?thesis by (simp split: prod.split)
  next
    case (2 m rest)
    have "length rest < length a" by (simp add: 2(2) encodeMessage_def)
    then have "peerFrames (rest @ b) = (case peerFrames rest of (ms, r) \<Rightarrow> (case peerFrames (r @ b) of (ms1, r1) \<Rightarrow> (ms @ ms1, r1)))"
      by (rule less)
    then show ?thesis
      by (simp add: 2(2) peerFrames_encode [OF 2(1)] split: prod.split)
  qed
qed

text \<open>What is left in the buffer holds no whole frame.\<close>

lemma peerFrames_left: "peerFrames a = (ms, r) \<Longrightarrow> peerFrames r = ([], r)"
proof (induction "length a" arbitrary: a ms rule: less_induct)
  case less
  show ?case
  proof (cases rule: peerFrames_cases [of a])
    case 1
    then show ?thesis using less.prems by simp
  next
    case (2 m rest)
    obtain ms1 where "peerFrames rest = (ms1, r)"
      using less.prems by (auto simp: 2(2) peerFrames_encode [OF 2(1)] split: prod.splits)
    moreover have "length rest < length a" by (simp add: 2(2) encodeMessage_def)
    ultimately show ?thesis using less.hyps by blast
  qed
qed

lemma peerFeed_concat: "peerFrames buf = ([], buf) \<Longrightarrow> peerFeed ds buf = peerFrames (buf @ concat ds)"
proof (induction ds arbitrary: buf)
  case (Cons d ds)
  obtain ms b1 where b1: "peerFrames (buf @ d) = (ms, b1)" by fastforce
  have "peerFeed ds b1 = peerFrames (b1 @ concat ds)" by (rule Cons.IH [OF peerFrames_left [OF b1]])
  moreover have "peerFrames (buf @ concat (d # ds)) = peerFrames ((buf @ d) @ concat ds)" by simp
  ultimately show ?case unfolding peerFrames_append [of "buf @ d"] by (simp add: b1)
qed simp

lemma peerFrames_Nil: "peerFrames [] = ([], [])"
  by (subst peerFrames.simps) simp

lemma readAll_peerFrames: "fst (readAll now (peerConn bs)) = fst (peerFrames bs)"
proof (induction "length bs" arbitrary: bs rule: less_induct)
  case less
  show ?case
  proof (cases rule: peerFrames_cases [of bs])
    case 1
    have "\<exists>e c'. ReadMessage now (peerConn bs) = (Inl e, c')"
    proof (cases "ReadMessage now (peerConn bs)")
      case (Pair r c')
      then show ?thesis using ReadMessage_Inr [of now "peerConn bs" _ c'] 1(2) by (cases r) auto
    qed
    then show ?thesis using 1(1) by (auto simp: readAll.simps [of now "peerConn bs"])
  next
    case (2 m rest)
    have c: "(peerConn (encodeMessage m @ rest))\<lparr>inbound := rest\<rparr> = peerConn rest" by (simp add: peerConn_def)
    have "fst (readAll now (peerConn rest)) = fst (peerFrames rest)"
      by (rule less) (simp add: 2(2) encodeMessage_def)
    then show ?thesis
      using readAll_frame [OF 2(1), of "peerConn bs" rest now]
      by (auto simp: 2(2) c peerFrames_encode [OF 2(1)] split: prod.split)
  qed
qed

section \<open>Properties\<close>

text \<open>
  C26: The sidecar and the bridge cut a byte stream into the same messages, for every byte stream, and the
  sidecar's incremental reader does so however the stream is split into chunks.
\<close>

theorem peer_readers_agree:
  "fst (peerFeed chunks []) = fst (readAll now (peerConn (concat chunks)))"
  using peerFeed_concat [OF peerFrames_Nil, of chunks] readAll_peerFrames [of now "concat chunks"] by simp

lemma strOf_bytesOf [simp]: "strOf (bytesOf s) = s"
proof -
  have "char_of (unat (of_nat (of_char c) :: 8 word)) = c" for c
    using nat_of_char_less_256 [of c] by (simp add: unat_of_nat)
  then show ?thesis by (simp add: strOf_def bytesOf_def comp_def)
qed

lemma length_bytesOf [simp]: "length (bytesOf s) = length s"
  by (simp add: bytesOf_def)

lemma unat_u16_small: "n < 65536 \<Longrightarrow> unat (of_nat n :: 16 word) = n"
  by (simp add: unat_of_nat)

lemma leUint16_length [simp]:
  assumes "n < 65536"
  shows "leUint16 (putLE 2 n @ rest) = Some (of_nat n)"
  using leUint16_put [of "of_nat n" rest] by (simp only: unat_u16_small [OF assms])

lemma leUint_put_end [simp]:
  "leUint64 (putUint64 v) = Some v" "n < 65536 \<Longrightarrow> leUint16 (putLE 2 n) = Some (of_nat n)"
  using leUint64_put [of v "[]"] leUint16_length [of n "[]"] by simp_all

lemma peerWrite_frame: "peerWrite m = Some bs \<longleftrightarrow> fitsFrame m \<and> bs = encodeMessage m"
  by (auto simp: peerWrite_def fitsFrame_def encodeMessage_def frameHeader_def)

lemma readAll_one: "fitsFrame m \<Longrightarrow> fst (readAll now (peerConn (encodeMessage m))) = [m]"
  using readAll_peerFrames [of now "encodeMessage m"] peerFrames_encode [of m "[]"] by (simp add: peerFrames_Nil)

lemma leUint16_take [simp]: "leUint16 (take 2 bs) = leUint16 bs"
  by (simp add: leUint16_def)

lemma voice_decoded:
  assumes "peerVoicePayload ch name category = Some p" and "length p \<le> 65535"
  shows "length p = 18 + length name" and "leUint64 p = Some ch" and "channelMeta p = Some \<lparr>ciName = name, ciCategory = category\<rparr>"
proof -
  have p: "p = putUint64 ch @ putUint64 category @ putUint16 (of_nat (length name)) @ bytesOf name"
    using assms(1) by (simp add: peerVoicePayload_def split: if_splits)
  show len: "length p = 18 + length name" by (simp add: p)
  show "leUint64 p = Some ch" by (simp add: p)
  have u: "unat (of_nat (length name) :: 16 word) = length name" using len assms(2) by (intro unat_u16_small) simp
  have s: "unat (18 + of_nat (length name) :: 16 word) = 18 + length name"
    using u16_sum [of 18 "of_nat (length name)"] u len assms(2) by simp
  have "goslice p 8 16 = Some (putUint64 category @ [])" "goslice p 16 18 = Some (putUint16 (of_nat (length name)) @ [])"
    using len by (simp_all add: p)
  moreover have "goslice p 18 (18 + length name) = Some (bytesOf name)" using len by (simp add: p)
  ultimately show "channelMeta p = Some \<lparr>ciName = name, ciCategory = category\<rparr>"
    using assms(2) by (simp add: channelMeta_def u s len del: goslice_Some_iff)
qed

lemma user_decoded:
  assumes "peerUserPayload name avatar = Some p" and "length p \<le> 65535"
  shows "2 \<le> length p" and "userInfoPayload p = Some (name, avatar)"
proof -
  let ?n = "length name" and ?a = "length avatar"
  have p: "p = putUint16 (of_nat ?n) @ bytesOf name @ putUint16 (of_nat ?a) @ bytesOf avatar"
    using assms(1) by (simp add: peerUserPayload_def split: if_splits)
  have len: "length p = 4 + ?n + ?a" by (simp add: p)
  then show "2 \<le> length p" by simp
  have u: "unat (of_nat ?n :: 16 word) = ?n" "unat (of_nat ?a :: 16 word) = ?a"
    using len assms(2) by (simp_all add: unat_u16_small)
  have s: "unat (2 + of_nat ?n :: 16 word) = 2 + ?n"
    using u16_sum [of 2 "of_nat ?n"] u len assms(2) by simp
  have "goslice p 0 2 = Some (putUint16 (of_nat ?n) @ [])" "goslice p 2 (2 + ?n) = Some (bytesOf name)"
    "goslice p (2 + ?n) (2 + ?n + 2) = Some (putUint16 (of_nat ?a) @ [])"
    "goslice p (2 + ?n + 2) (2 + ?n + 2 + ?a) = Some (bytesOf avatar)"
    using len by (simp_all add: p)
  then show "userInfoPayload p = Some (name, avatar)"
    using assms(2) by (simp add: userInfoPayload_def u s len Let_def del: goslice_Some_iff)
qed

text \<open>
  C27: Whatever the sidecar manages to write as a voice state, a channel or a user info, the bridge reads back
  exactly: the frame, the channel with its category and name, the display name with the avatar hash.
\<close>

theorem peer_payloads_understood:
  assumes "peerVoicePayload ch name category = Some p" and "peerUserPayload display avatar = Some q"
    and "peerWrite \<lparr>msgType = t, msgUserID = u, msgPayload = p\<rparr> = Some bs"
    and "peerWrite \<lparr>msgType = t', msgUserID = u', msgPayload = q\<rparr> = Some bs'"
  shows "fst (readAll now (peerConn (bs @ bs'))) =
      [\<lparr>msgType = t, msgUserID = u, msgPayload = p\<rparr>, \<lparr>msgType = t', msgUserID = u', msgPayload = q\<rparr>] \<and>
    voiceStatePayload p = Some (ch, \<lparr>ciName = name, ciCategory = category\<rparr>) \<and>
    userInfoPayload q = Some (display, avatar)"
proof -
  let ?m = "\<lparr>msgType = t, msgUserID = u, msgPayload = p\<rparr>" and ?m' = "\<lparr>msgType = t', msgUserID = u', msgPayload = q\<rparr>"
  have f: "fitsFrame ?m" "bs = encodeMessage ?m" "fitsFrame ?m'" "bs' = encodeMessage ?m'"
    using assms(3,4) unfolding peerWrite_frame by auto
  then have len: "length p \<le> 65535" "length q \<le> 65535" by (simp_all add: fitsFrame_def)
  have "fst (readAll now (peerConn (bs @ bs'))) = [?m, ?m']"
    using readAll_peerFrames [of now "bs @ bs'"] peerFrames_encode [OF f(1), of bs'] peerFrames_encode [OF f(3), of "[]"]
    by (simp add: f(2,4) peerFrames_Nil)
  then show ?thesis
    using voice_decoded [OF assms(1) len(1)] user_decoded(2) [OF assms(2) len(2)] by (simp add: voiceStatePayload_def)
qed

theorem peer_payloads_understood_witness:
  "voiceStatePayload (putUint64 5 @ putUint64 6 @ putUint16 2 @ bytesOf ''ab'') = Some (5, \<lparr>ciName = ''ab'', ciCategory = 6\<rparr>)"
  using peer_payloads_understood [of 5 "''ab''" 6 "putUint64 5 @ putUint64 6 @ putUint16 2 @ bytesOf ''ab''"
      "''x''" "''''" "putUint16 1 @ bytesOf ''x'' @ putUint16 0 @ []" MsgVoiceState 7 _ MsgUserInfo 7 _ 0]
  by (simp add: peerVoicePayload_def peerUserPayload_def peerWrite_def bytesOf_def)

lemma usersPayload_rest:
  "list_all (\<lambda>n. length n < 65536) names \<Longrightarrow> length pre = offset \<Longrightarrow>
   peerNames (length names) offset (pre @ concat (map (\<lambda>n. putUint16 (of_nat (length n)) @ bytesOf n) names)) = Some names"
proof (induction names arbitrary: pre offset)
  case (Cons n names)
  let ?enc = "\<lambda>n. putUint16 (of_nat (length n)) @ bytesOf n"
  have l: "length n < 65536" using Cons.prems by simp
  have "peerNames (length names) (offset + 2 + length n) ((pre @ ?enc n) @ concat (map ?enc names)) = Some names"
    using Cons.prems by (intro Cons.IH) (simp_all add: unat_u16_small)
  then show ?case using Cons.prems(2) l by (simp add: Let_def unat_u16_small)
qed simp

text \<open>
  The sidecar reads the list of names the bridge sends back exactly, as long as there are fewer than
  65536 users and every name has fewer than 65536 bytes, the empty name included.
\<close>

theorem peer_users_roundtrip:
  assumes "length names < 65536" and "list_all (\<lambda>n. length n < 65536) names"
  shows "peerUsers (usersPayload names) = Some names"
  using usersPayload_rest [OF assms(2), of "putUint16 (of_nat (length names))" 2] assms(1)
  by (simp add: peerUsers_def usersPayload_def unat_u16_small)

theorem peer_users_roundtrip_witness: "peerUsers (usersPayload [''Alice'', '''', ''Bob'']) = Some [''Alice'', '''', ''Bob'']"
  by (rule peer_users_roundtrip) simp_all

lemma u16_wraps:
  fixes w :: "16 word"
  assumes "65536 \<le> k + unat w" and "k < 65536"
  shows "unat (of_nat k + w) < k"
proof -
  have "unat (of_nat k + w) = (k + unat w) mod 65536"
    using assms(2) by (simp add: unat_word_ariths unat_of_nat)
  moreover have w: "unat w < 65536" using unsigned_less [of w] by simp
  moreover have "(k + unat w) mod 65536 = k + unat w - 65536"
    using assms w by (subst mod_if) (simp add: le_mod_geq)
  ultimately show ?thesis using assms by linarith
qed

text \<open>
  Decoding a channel or a user panics exactly when a 16-bit length makes the slice bound wrap around and the
  payload really holds that many bytes; no payload that fits a frame does that, since 18 + 65518 bytes do not fit.
\<close>

theorem message_decode_panics:
  "(channelMeta p = None \<longleftrightarrow> length p < 18 \<or>
      (65518 \<le> unat (the (leUint16 (take 2 (drop 16 p)))) \<and> 18 + unat (the (leUint16 (take 2 (drop 16 p)))) \<le> length p)) \<and>
   (userInfoPayload p = None \<longleftrightarrow> length p < 2 \<or>
      (65534 \<le> unat (the (leUint16 p)) \<and> 2 + unat (the (leUint16 p)) \<le> length p))"
proof (intro conjI)
  show "channelMeta p = None \<longleftrightarrow> length p < 18 \<or>
      (65518 \<le> unat (the (leUint16 (take 2 (drop 16 p)))) \<and> 18 + unat (the (leUint16 (take 2 (drop 16 p)))) \<le> length p)"
  proof (cases "length p < 18")
    case True
    then have "goslice p 8 16 = None \<or> goslice p 16 18 = None" by auto
    then show ?thesis using True by (auto simp: channelMeta_def simp del: goslice_None_iff)
  next
    case False
    obtain c where c: "leUint64 (take 8 (drop 8 p)) = Some c" using leUint64_some [of "take 8 (drop 8 p)"] False by auto
    have "2 \<le> length (drop 16 p)" using False by simp
    then obtain w where w: "leUint16 (drop 16 p) = Some w" using leUint16_some by blast
    have "unat (18 + w) = 18 + unat w" if "unat w < 65518" using u16_sum [of 18 w] that by simp
    moreover have "unat (18 + w) < 18" if "65518 \<le> unat w" using u16_wraps [of 18 w] that by simp
    ultimately show ?thesis
      using False c w by (cases "unat w < 65518") (auto simp: channelMeta_def goslice_def not_le not_less)
  qed
  show "userInfoPayload p = None \<longleftrightarrow> length p < 2 \<or>
      (65534 \<le> unat (the (leUint16 p)) \<and> 2 + unat (the (leUint16 p)) \<le> length p)"
  proof (cases "length p < 2")
    case True
    then have "goslice p 0 2 = None" by auto
    then show ?thesis using True by (simp add: userInfoPayload_def del: goslice_None_iff)
  next
    case False
    obtain w where w: "leUint16 p = Some w" using leUint16_some [of p] False by auto
    have "unat (2 + w) = 2 + unat w" if "unat w < 65534" using u16_sum [of 2 w] that by simp
    moreover have "unat (2 + w) < 2" if "65534 \<le> unat w" using u16_wraps [of 2 w] that by simp
    moreover have "\<exists>r. userInfoPayload p = Some r" if n: "unat (2 + w) = 2 + unat w"
    proof (cases "2 + unat w + 2 \<le> length p")
      case True
      then have "2 \<le> length (drop (2 + unat w) p)" by simp
      then obtain v where "leUint16 (drop (2 + unat w) p) = Some v" using leUint16_some by blast
      then show ?thesis using False w n True by (auto simp: userInfoPayload_def goslice_def Let_def)
    qed (use False w n in \<open>auto simp: userInfoPayload_def goslice_def Let_def\<close>)
    moreover have "userInfoPayload p = None \<longleftrightarrow> 2 + unat w \<le> length p" if "unat (2 + w) < 2"
      using False w that calculation(1) by (auto simp: userInfoPayload_def goslice_def Let_def)
    ultimately show ?thesis using w False by (cases "unat w < 65534") auto
  qed
qed

end
