(* ===== verification/Playback.thy ===== *)
theory Playback
  imports Peer "HOL-Library.Sublist"
begin

text \<open>
  Two parts of \<^verbatim>\<open>sidecar/index.mjs\<close> that keep data of their own: the queue of Opus frames a Discord player
  reads from (\<^verbatim>\<open>OpusFrameStream\<close>), and the text of the bot's nickname, which is made from UTF-8 bytes and
  limited in UTF-16 units.
\<close>

section \<open>The queue of Opus frames\<close>

text \<open>
  What \<^verbatim>\<open>this.push\<close> answers, whether the reader wants more, is decided by \<open>want\<close> from the frames handed on so
  far. \<open>osOut\<close> are these frames.
\<close>

record opusStream =
  osFrames :: "bytes list"
  osReading :: bool
  osOut :: "bytes list"

definition newOpusStream :: opusStream where
  "newOpusStream = \<lparr>osFrames = [], osReading = False, osOut = []\<rparr>"

fun shiftOld :: "bytes list \<Rightarrow> bytes list" where
  "shiftOld [] = []"
| "shiftOld (f # fs) = (if length (f # fs) \<ge> 5 then shiftOld fs else f # fs)"

text \<open>The loop of \<^verbatim>\<open>_flush\<close>: the frames left, whether the reader still wants one, the frames handed on.\<close>

fun flushFrames :: "(bytes list \<Rightarrow> bool) \<Rightarrow> bytes list \<Rightarrow> bytes list \<Rightarrow> bytes list \<times> bool \<times> bytes list" where
  "flushFrames want [] out = ([], True, out)"
| "flushFrames want (f # fs) out =
     (if want (out @ [f]) then flushFrames want fs (out @ [f]) else (fs, False, out @ [f]))"

definition streamFlush :: "(bytes list \<Rightarrow> bool) \<Rightarrow> opusStream \<Rightarrow> opusStream" where
  "streamFlush want st =
     (case flushFrames want (osFrames st) (osOut st) of
        (fs, r, out) \<Rightarrow> \<lparr>osFrames = fs, osReading = r, osOut = out\<rparr>)"

definition pushFrame :: "(bytes list \<Rightarrow> bool) \<Rightarrow> bytes \<Rightarrow> opusStream \<Rightarrow> opusStream" where
  "pushFrame want f st =
     (let st1 = st\<lparr>osFrames := shiftOld (osFrames st) @ [f]\<rparr>
      in if osReading st1 then streamFlush want st1 else st1)"

definition streamRead :: "(bytes list \<Rightarrow> bool) \<Rightarrow> opusStream \<Rightarrow> opusStream" where
  "streamRead want st = streamFlush want (st\<lparr>osReading := True\<rparr>)"

datatype streamEvent = PushFrame bytes | ReadFrames

fun streamStep :: "(bytes list \<Rightarrow> bool) \<Rightarrow> streamEvent \<Rightarrow> opusStream \<Rightarrow> opusStream" where
  "streamStep want (PushFrame f) st = pushFrame want f st"
| "streamStep want ReadFrames st = streamRead want st"

definition pushedFrames :: "streamEvent list \<Rightarrow> bytes list" where
  "pushedFrames es = List.map_filter (\<lambda>e. case e of PushFrame f \<Rightarrow> Some f | ReadFrames \<Rightarrow> None) es"

lemma pushedFrames_snoc [simp]:
  "pushedFrames [] = []"
  "pushedFrames (es @ [PushFrame f]) = pushedFrames es @ [f]"
  "pushedFrames (es @ [ReadFrames]) = pushedFrames es"
  by (simp_all add: pushedFrames_def List.map_filter_def)

lemma shiftOld_suffix: "suffix (shiftOld fs) fs"
  by (induction fs) (auto intro: suffix_ConsI)

lemma shiftOld_short: "length (shiftOld fs) < 5"
  by (induction fs) auto

lemma shiftOld_id: "length fs < 5 \<Longrightarrow> shiftOld fs = fs"
  by (cases fs) auto

lemma flushFrames_moves:
  "flushFrames want fs out = (fs', r, out') \<Longrightarrow> out' @ fs' = out @ fs \<and> suffix fs' fs \<and> (r \<longrightarrow> fs' = [])"
  by (induction want fs out rule: flushFrames.induct) (auto simp: suffix_Cons split: if_splits)

text \<open>What the queue is for every history of pushes \<open>ps\<close>.\<close>

definition streamInv :: "bytes list \<Rightarrow> opusStream \<Rightarrow> bool" where
  "streamInv ps st \<longleftrightarrow> subseq (osOut st @ osFrames st) ps \<and> suffix (osFrames st) ps \<and>
     length (osFrames st) \<le> 5 \<and> (osReading st \<longrightarrow> osFrames st = [])"

lemma streamInv_flush:
  assumes "subseq (osOut st @ osFrames st) ps" "suffix (osFrames st) ps" "length (osFrames st) \<le> 5"
  shows "streamInv ps (streamFlush want st)"
proof -
  obtain fs r out where f: "flushFrames want (osFrames st) (osOut st) = (fs, r, out)" by (cases "flushFrames want (osFrames st) (osOut st)")
  have "out @ fs = osOut st @ osFrames st" "suffix fs (osFrames st)" "r \<longrightarrow> fs = []"
    using flushFrames_moves [OF f] by simp_all
  then show ?thesis
    using assms suffix_order.trans suffix_length_le by (fastforce simp: streamInv_def streamFlush_def f)
qed

lemma streamInv_push: "streamInv ps st \<Longrightarrow> streamInv (ps @ [f]) (pushFrame want f st)"
proof -
  assume inv: "streamInv ps st"
  let ?fs = "shiftOld (osFrames st) @ [f]"
  have "subseq (osOut st @ shiftOld (osFrames st)) (osOut st @ osFrames st)"
    by (rule list_emb_append_mono) (simp_all add: suffix_imp_subseq shiftOld_suffix)
  then have "subseq (osOut st @ ?fs) (ps @ [f])"
    using inv subseq_order.trans list_emb_append_mono [of "(=)" "osOut st @ shiftOld (osFrames st)" ps "[f]" "[f]"]
    by (fastforce simp: streamInv_def)
  moreover have "suffix ?fs (ps @ [f])" "length ?fs \<le> 5"
    using inv shiftOld_suffix [of "osFrames st"] shiftOld_short [of "osFrames st"] suffix_order.trans
    by (auto simp: streamInv_def intro: Suc_leI)
  ultimately show ?thesis
    using inv streamInv_flush [of "st\<lparr>osFrames := ?fs\<rparr>" "ps @ [f]" want] by (auto simp: pushFrame_def Let_def streamInv_def)
qed

lemma streamInv_read: "streamInv ps st \<Longrightarrow> streamInv ps (streamRead want st)"
  unfolding streamRead_def by (rule streamInv_flush) (simp_all add: streamInv_def)

lemma streamInv_run: "streamInv (pushedFrames es) (fold (streamStep want) es newOpusStream)"
proof (induction es rule: rev_induct)
  case Nil
  show ?case by (simp add: streamInv_def newOpusStream_def)
next
  case (snoc e es)
  show ?case
  proof (cases e)
    case (PushFrame f)
    then show ?thesis using streamInv_push [OF snoc] by simp
  next
    case ReadFrames
    then show ?thesis using streamInv_read [OF snoc] by simp
  qed
qed

text \<open>
  C35: However pushes and reads alternate and however much the player takes at a time: the player gets frames the
  bridge sent, in their order and none twice; what waits are the newest frames, at most five of them (a tenth
  of a second), and nothing waits while the player is asking.
\<close>

theorem opus_stream_bounded:
  "let st = fold (streamStep want) es newOpusStream
   in subseq (osOut st @ osFrames st) (pushedFrames es) \<and> suffix (osFrames st) (pushedFrames es) \<and>
      length (osFrames st) \<le> 5 \<and> (osReading st \<longrightarrow> osFrames st = [])"
  using streamInv_run [of es want] by (simp add: streamInv_def Let_def)

theorem opus_stream_bounded_witness:
  "length (osFrames (fold (streamStep (\<lambda>_. False)) (ReadFrames # map (\<lambda>n. PushFrame [n]) [1, 2, 3, 4, 5, 6, 7, 8]) newOpusStream)) \<le> 5"
  using opus_stream_bounded [of "\<lambda>_. False" "ReadFrames # map (\<lambda>n. PushFrame [n]) [1, 2, 3, 4, 5, 6, 7, 8]"] by (simp add: Let_def)

section \<open>The nickname\<close>

text \<open>
  A JavaScript string is a list of UTF-16 units. \<^verbatim>\<open>toString('utf8')\<close> decodes bytes to code points and puts
  U+FFFD for every maximal part of a sequence that is no character. The state is the sequence begun: the code
  point so far, how many bytes are missing, and the bounds of the next one.
\<close>

type_synonym jsstr = "u16 list"

definition utf8Lead :: "nat \<Rightarrow> nat list \<times> (nat \<times> nat \<times> nat \<times> nat) option" where
  "utf8Lead b =
     (if b < 0x80 then ([b], None)
      else if 0xC2 \<le> b \<and> b \<le> 0xDF then ([], Some (b - 0xC0, 1, 0x80, 0xBF))
      else if 0xE0 \<le> b \<and> b \<le> 0xEF
        then ([], Some (b - 0xE0, 2, if b = 0xE0 then 0xA0 else 0x80, if b = 0xED then 0x9F else 0xBF))
      else if 0xF0 \<le> b \<and> b \<le> 0xF4
        then ([], Some (b - 0xF0, 3, if b = 0xF0 then 0x90 else 0x80, if b = 0xF4 then 0x8F else 0xBF))
      else ([0xFFFD], None))"

definition utf8Next :: "(nat \<times> nat \<times> nat \<times> nat) option \<Rightarrow> nat \<Rightarrow> nat list \<times> (nat \<times> nat \<times> nat \<times> nat) option" where
  "utf8Next st b =
     (case st of
        None \<Rightarrow> utf8Lead b
      | Some (cp, n, lo, hi) \<Rightarrow>
          if b < lo \<or> hi < b then (case utf8Lead b of (cps, st1) \<Rightarrow> (0xFFFD # cps, st1))
          else if n = 1 then ([cp * 64 + (b - 0x80)], None)
          else ([], Some (cp * 64 + (b - 0x80), n - 1, 0x80, 0xBF)))"

fun utf8Points :: "(nat \<times> nat \<times> nat \<times> nat) option \<Rightarrow> bytes \<Rightarrow> nat list" where
  "utf8Points st [] = (case st of None \<Rightarrow> [] | Some _ \<Rightarrow> [0xFFFD])"
| "utf8Points st (b # bs) = (case utf8Next st (unat b) of (cps, st1) \<Rightarrow> cps @ utf8Points st1 bs)"

definition utf16Units :: "nat \<Rightarrow> jsstr" where
  "utf16Units cp =
     (if cp < 0x10000 then [of_nat cp]
      else [of_nat (0xD800 + (cp - 0x10000) div 0x400), of_nat (0xDC00 + (cp - 0x10000) mod 0x400)])"

text \<open>The string with the UTF-8 bytes \<open>s\<close>.\<close>

definition jsText :: "string \<Rightarrow> jsstr" where
  "jsText s = concat (map utf16Units (utf8Points None (bytesOf s)))"

fun jsJoin :: "jsstr \<Rightarrow> jsstr list \<Rightarrow> jsstr" where
  "jsJoin sep [] = []"
| "jsJoin sep [x] = x"
| "jsJoin sep (x # xs) = x @ sep @ jsJoin sep xs"

definition nickText :: "jsstr \<Rightarrow> string list \<Rightarrow> jsstr" where
  "nickText original names =
     (let newNick = (if length names > 0 then jsJoin (jsText '', '') (map jsText names) else original)
      in if length newNick > 32 then take 29 newNick @ jsText ''...'' else newNick)"

lemma utf8Points_ascii:
  "list_all (\<lambda>b. unat b < 0x80) bs \<Longrightarrow> concat (map utf16Units (utf8Points None bs)) = map (\<lambda>b. of_nat (unat b)) bs"
  by (induction bs) (simp_all add: utf8Next_def utf8Lead_def utf16Units_def)

definition asciiText :: "string \<Rightarrow> bool" where
  "asciiText s \<longleftrightarrow> list_all (\<lambda>c. (of_char c :: nat) < 0x80) s"

lemma jsText_ascii:
  assumes "asciiText s"
  shows "jsText s = map (\<lambda>c. of_nat (of_char c)) s"
proof -
  have u: "unat (of_nat (of_char c) :: u8) = of_char c" for c
    using nat_of_char_less_256 [of c] by (simp add: unat_of_nat)
  have "list_all (\<lambda>b. unat b < 0x80) (bytesOf s)"
    using assms by (simp add: asciiText_def bytesOf_def list_all_iff u)
  moreover have "(ucast (of_nat (of_char c) :: u8) :: u16) = of_nat (of_char c)" for c
    using u [of c] by (metis of_nat_unat)
  ultimately show ?thesis by (simp add: jsText_def bytesOf_def utf8Points_ascii)
qed

lemma jsJoin_ascii:
  "list_all asciiText names \<Longrightarrow> jsJoin (jsText '', '') (map jsText names) = map (\<lambda>c. of_nat (of_char c)) (joinWith '', '' names)"
proof (induction names rule: induct_list012)
  case (3 x y ys)
  have "asciiText '', ''" by (simp add: asciiText_def)
  then show ?case using 3 by (simp add: jsText_ascii)
qed (simp_all add: jsText_ascii)

lemma nickText_length: "length (nickText original names) \<le> 32"
proof -
  have "jsText ''...'' = map (\<lambda>c. of_nat (of_char c)) ''...''" by (rule jsText_ascii) (simp add: asciiText_def)
  then show ?thesis by (simp add: nickText_def Let_def)
qed

text \<open>
  The list of users the bridge sends becomes the bot's nickname: their names joined by commas when they are
  ASCII and fit the 32 units Discord allows, never more than 32 units whatever the names are, and the nickname
  from before when the list is empty.
\<close>

theorem nickname_shows_users:
  assumes "length names < 65536" and "list_all (\<lambda>n. length n < 65536) names" and "peerUsers (usersPayload names) = Some shown"
  shows "length (nickText original shown) \<le> 32 \<and>
    (names = [] \<and> length original \<le> 32 \<longrightarrow> nickText original shown = original) \<and>
    (names \<noteq> [] \<and> list_all asciiText names \<and> length (joinWith '', '' names) \<le> 32 \<longrightarrow>
       nickText original shown = map (\<lambda>c. of_nat (of_char c)) (joinWith '', '' names))"
proof -
  have shown: "shown = names"
    using usersPayload_rest [OF assms(2), of "putUint16 (of_nat (length names))" 2] assms(1,3)
    by (simp add: peerUsers_def usersPayload_def unat_u16_small)
  show ?thesis
    using nickText_length [of original shown] by (simp add: shown nickText_def Let_def jsJoin_ascii)
qed

theorem nickname_shows_users_witness:
  "nickText [] [''Alice'', ''Bob''] = map (\<lambda>c. of_nat (of_char c)) ''Alice, Bob''"
proof -
  have "peerUsers (usersPayload [''Alice'', ''Bob'']) = Some [''Alice'', ''Bob'']" by code_simp
  from nickname_shows_users [OF _ _ this] show ?thesis by (simp add: asciiText_def)
qed

end
