(* ===== verification/Voice.thy ===== *)
theory Voice
  imports Playback
begin

text \<open>
  The process of \<^verbatim>\<open>sidecar/index.mjs\<close>: its variables, the handlers of the messages from the bridge, joining a
  voice channel as a coroutine that is suspended at every \<^verbatim>\<open>await\<close>, leaving it, the audio handlers, the voice
  states a primary sidecar reports, start and end. Everything the process does to the outside is an \<open>act\<close>; a
  connection or a player is named by the position of the act that made it. Discord answers as \<open>discord\<close> says.
\<close>

section \<open>The process\<close>

datatype act =
    Send message
  | Connect u64
  | Destroy nat
  | DestroyStale
  | NewPlayer
  | StopPlayer nat
  | Subscribe nat nat
  | Play nat
  | Receive nat u64
  | EndStream
  | SetNick jsstr
  | Wait nat
  | Thrown string
  | ClientDestroy
  | SocketEnd
  | Exit nat

text \<open>What is in the cache: no guild, a guild without the bot as a member, or the bot's nickname there.\<close>

datatype guildView = NoGuild | NoMe | Me "jsstr option"

record discord =
  dcGuildNow :: "act list \<Rightarrow> guildView"
  dcHasConn :: "act list \<Rightarrow> bool"
  dcWant :: "bytes list \<Rightarrow> bool"

text \<open>Where a call of \<^verbatim>\<open>joinChannel\<close> is suspended: the three timers, and the wait for a connection to be ready.\<close>

datatype joinPc =
    JSettle u64
  | JStale u64 nat
  | JEnters u64 nat nat
  | JBackoff u64 nat
  | JDone

record voice =
  vcChannel :: "u64 option"
  vcConn :: "nat option"
  vcPlayer :: "nat option"
  vcStream :: "opusStream option"
  vcNick :: "jsstr option"
  vcFrames :: nat
  vcLeaving :: bool
  vcJoins :: "joinPc list"
  vcConns :: "nat list"
  vcWatched :: "nat list"
  vcListening :: "nat list"
  vcSubs :: "(nat \<times> u64) list"
  vcStarted :: bool
  vcDown :: bool
  vcActs :: "act list"

definition voice0 :: voice where
  "voice0 = \<lparr>vcChannel = None, vcConn = None, vcPlayer = None, vcStream = None, vcNick = None, vcFrames = 0,
     vcLeaving = False, vcJoins = [], vcConns = [], vcWatched = [], vcListening = [], vcSubs = [],
     vcStarted = False, vcDown = False, vcActs = []\<rparr>"

definition doAct :: "act \<Rightarrow> voice \<Rightarrow> voice" where
  "doAct a s = s\<lparr>vcActs := vcActs s @ [a]\<rparr>"

text \<open>An exception that nothing catches ends the process.\<close>

definition crash :: "string \<Rightarrow> voice \<Rightarrow> voice" where
  "crash e s = doAct (Exit 1) (doAct (Thrown e) s)\<lparr>vcDown := True\<rparr>"

text \<open>\<^verbatim>\<open>writeMessage\<close>; nothing is written after an exception.\<close>

definition sendMsg :: "u8 \<Rightarrow> u64 \<Rightarrow> bytes \<Rightarrow> voice \<Rightarrow> voice" where
  "sendMsg t u p s =
     (if vcDown s then s
      else case peerWrite \<lparr>msgType = t, msgUserID = u, msgPayload = p\<rparr> of
             None \<Rightarrow> crash ''RangeError'' s
           | Some _ \<Rightarrow> doAct (Send \<lparr>msgType = t, msgUserID = u, msgPayload = p\<rparr>) s)"

section \<open>Leaving\<close>

definition dropConn :: "voice \<Rightarrow> voice" where
  "dropConn s = (case vcConn s of None \<Rightarrow> s | Some c \<Rightarrow> doAct (Destroy c) s\<lparr>vcConn := None\<rparr>)"

definition dropPlayer :: "voice \<Rightarrow> voice" where
  "dropPlayer s = (case vcPlayer s of None \<Rightarrow> s | Some p \<Rightarrow> doAct (StopPlayer p) s\<lparr>vcPlayer := None\<rparr>)"

definition dropStream :: "voice \<Rightarrow> voice" where
  "dropStream s = (case vcStream s of None \<Rightarrow> s | Some _ \<Rightarrow> doAct EndStream s\<lparr>vcStream := None\<rparr>)"

definition restoreNick :: "discord \<Rightarrow> voice \<Rightarrow> voice" where
  "restoreNick dc s =
     (case (vcNick s, dcGuildNow dc (vcActs s)) of
        (Some n, Me _) \<Rightarrow> doAct (SetNick n) s
      | _ \<Rightarrow> s)"

definition leaveChannel :: "discord \<Rightarrow> voice \<Rightarrow> voice" where
  "leaveChannel dc s =
     (if vcLeaving s then s
      else let s1 = dropStream (dropPlayer (dropConn (s\<lparr>vcLeaving := True\<rparr>)))
           in restoreNick dc (s1\<lparr>vcChannel := None, vcFrames := 0\<rparr>)\<lparr>vcLeaving := False\<rparr>)"

definition cleanup :: "discord \<Rightarrow> voice \<Rightarrow> voice" where
  "cleanup dc s = doAct (Exit 0) (doAct SocketEnd (doAct ClientDestroy (leaveChannel dc s)))\<lparr>vcDown := True\<rparr>"

section \<open>Joining\<close>

text \<open>
  One call of \<^verbatim>\<open>joinChannel\<close>, cut at its \<^verbatim>\<open>await\<close>s. The tries are numbered from 1 to 3. Every connection gets an
  error handler.
\<close>

definition joinConnect :: "u64 \<Rightarrow> nat \<Rightarrow> voice \<Rightarrow> joinPc \<times> voice" where
  "joinConnect ch n s =
     (let c = length (vcActs s)
      in (JEnters ch n c, doAct (Connect ch) s\<lparr>vcChannel := Some ch, vcConns := c # vcConns s\<rparr>))"

definition joinAttempt :: "discord \<Rightarrow> u64 \<Rightarrow> nat \<Rightarrow> voice \<Rightarrow> joinPc \<times> voice" where
  "joinAttempt dc ch n s =
     (if dcHasConn dc (vcActs s) then (JStale ch n, doAct (Wait 300) (doAct DestroyStale s))
      else joinConnect ch n s)"

definition joinGuild :: "discord \<Rightarrow> u64 \<Rightarrow> voice \<Rightarrow> joinPc \<times> voice" where
  "joinGuild dc ch s =
     (if dcGuildNow dc (vcActs s) = NoGuild then (JDone, s) else joinAttempt dc ch 1 s)"

definition joinStart :: "discord \<Rightarrow> u64 \<Rightarrow> voice \<Rightarrow> joinPc \<times> voice" where
  "joinStart dc ch s =
     (if vcChannel s = Some ch then (JDone, s)
      else if vcConn s \<noteq> None then (JSettle ch, doAct (Wait 500) (leaveChannel dc s))
      else joinGuild dc ch s)"

definition joinFailed :: "u64 \<Rightarrow> nat \<Rightarrow> nat \<Rightarrow> voice \<Rightarrow> joinPc \<times> voice" where
  "joinFailed ch n c s =
     (let s1 = doAct (Destroy c) s\<lparr>vcChannel := None\<rparr>
      in if n < 3 then (JBackoff ch n, doAct (Wait (1000 * n)) s1)
         else (JDone, sendMsg MsgLeaveChannel 0 [] s1))"

text \<open>
  The code behind the loop. It uses the name \<open>connection\<close>, which is a \<^verbatim>\<open>const\<close> of the block that is the loop's
  body; \<open>scope\<close> are the handles that can be named where the code stands. A name that is not in scope throws a
  \<^verbatim>\<open>ReferenceError\<close>, which rejects the promise of \<^verbatim>\<open>joinChannel\<close>; the handler of rejections only logs.
\<close>

definition joinRest :: "(string \<times> nat) list \<Rightarrow> voice \<Rightarrow> voice" where
  "joinRest scope s =
     (let p = length (vcActs s);
          s1 = doAct NewPlayer s\<lparr>vcPlayer := Some p\<rparr>
      in case map_of scope ''connection'' of
           None \<Rightarrow> doAct (Thrown ''ReferenceError: connection is not defined'') s1
         | Some c \<Rightarrow>
             let s2 = doAct (Play p) (doAct (Subscribe c p) s1\<lparr>vcStream := Some newOpusStream\<rparr>)
             in s2\<lparr>vcListening := c # vcListening s2\<rparr>)"

text \<open>The names of handles in \<^verbatim>\<open>joinChannel\<close> outside of the loop's body.\<close>

definition joinScope :: "(string \<times> nat) list" where
  "joinScope = []"

definition joinReady :: "nat \<Rightarrow> voice \<Rightarrow> joinPc \<times> voice" where
  "joinReady c s = (JDone, joinRest joinScope (s\<lparr>vcConn := Some c, vcWatched := c # vcWatched s\<rparr>))"

text \<open>What a suspended call does when its timer has fired or its wait is over, \<open>ok\<close> when the connection is ready.\<close>

definition joinWake :: "discord \<Rightarrow> bool \<Rightarrow> joinPc \<Rightarrow> voice \<Rightarrow> joinPc \<times> voice" where
  "joinWake dc ok pc s =
     (case pc of
        JSettle ch \<Rightarrow> joinGuild dc ch s
      | JStale ch n \<Rightarrow> joinConnect ch n s
      | JEnters ch n c \<Rightarrow> if ok then joinReady c s else joinFailed ch n c s
      | JBackoff ch n \<Rightarrow> joinAttempt dc ch (Suc n) s
      | JDone \<Rightarrow> (JDone, s))"

section \<open>Audio from Discord\<close>

definition onSpeaking :: "nat \<Rightarrow> u64 \<Rightarrow> voice \<Rightarrow> voice" where
  "onSpeaking c u s =
     (let s1 = sendMsg MsgUserJoin u [] s
      in if (c, u) \<in> set (vcSubs s1) then s1 else doAct (Receive c u) s1\<lparr>vcSubs := (c, u) # vcSubs s1\<rparr>)"

definition onOpusData :: "u64 \<Rightarrow> bytes \<Rightarrow> voice \<Rightarrow> voice" where
  "onOpusData u f s = sendMsg MsgAudioFromDiscord u f (s\<lparr>vcFrames := Suc (vcFrames s)\<rparr>)"

definition onStreamClosed :: "nat \<Rightarrow> u64 \<Rightarrow> voice \<Rightarrow> voice" where
  "onStreamClosed c u s = sendMsg MsgUserLeave u [] (s\<lparr>vcSubs := removeAll (c, u) (vcSubs s)\<rparr>)"

section \<open>Messages from the bridge\<close>

definition updateBotNickname :: "discord \<Rightarrow> bytes \<Rightarrow> voice \<Rightarrow> voice" where
  "updateBotNickname dc p s =
     (if length p < 2 then s
      else case peerUsers p of
             None \<Rightarrow> crash ''RangeError'' s
           | Some names \<Rightarrow>
               (case dcGuildNow dc (vcActs s) of
                  Me nick \<Rightarrow>
                    let original = (case vcNick s of Some o' \<Rightarrow> o' | None \<Rightarrow> (case nick of Some n \<Rightarrow> n | None \<Rightarrow> []))
                    in doAct (SetNick (nickText original names)) s\<lparr>vcNick := Some original\<rparr>
                | _ \<Rightarrow> s))"

definition readChannelId :: "bytes \<Rightarrow> u64 option" where
  "readChannelId p = (if length p < 8 then None else leUint64 p)"

definition startJoin :: "discord \<Rightarrow> u64 \<Rightarrow> voice \<Rightarrow> voice" where
  "startJoin dc ch s = (case joinStart dc ch s of (pc, s1) \<Rightarrow> s1\<lparr>vcJoins := vcJoins s1 @ [pc]\<rparr>)"

definition onIpc :: "discord \<Rightarrow> message \<Rightarrow> voice \<Rightarrow> voice" where
  "onIpc dc msg s =
     (let t = msgType msg; p = msgPayload msg
      in if t = MsgShutdown then cleanup dc s
         else case (t = MsgAudioToDiscord, vcStream s) of
                (True, Some st) \<Rightarrow> s\<lparr>vcStream := Some (pushFrame (dcWant dc) p st)\<rparr>
              | _ \<Rightarrow>
                  if t = MsgJoinChannel then (case readChannelId p of None \<Rightarrow> s | Some ch \<Rightarrow> startJoin dc ch s)
                  else if t = MsgLeaveChannel then leaveChannel dc s
                  else if t = MsgMatrixUsers then updateBotNickname dc p s
                  else s)"

section \<open>Voice states\<close>

record userData =
  udID :: u64
  udBot :: bool
  udGlobal :: "string option"
  udName :: string
  udAvatar :: "string option"

record member =
  mbID :: u64
  mbDisplay :: string
  mbUser :: "userData option"

text \<open>A channel: its identifier, its type, its name and the category it is in.\<close>

record channelData =
  cdID :: u64
  cdType :: nat
  cdName :: string
  cdParent :: "u64 option"

record voiceStateData =
  vsUser :: u64
  vsChannel :: "u64 option"
  vsMember :: "member option"

definition orElse :: "string \<Rightarrow> string \<Rightarrow> string" where
  "orElse a b = (if a = [] then b else a)"

definition sendUserInfo :: "member option \<Rightarrow> voice \<Rightarrow> voice" where
  "sendUserInfo mo s =
     (case mo of
        Some mb \<Rightarrow>
          (case mbUser mb of
             Some ud \<Rightarrow>
               (case peerUserPayload (orElse (mbDisplay mb) (orElse (case udGlobal ud of Some g \<Rightarrow> g | None \<Rightarrow> []) (udName ud)))
                       (case udAvatar ud of Some a \<Rightarrow> a | None \<Rightarrow> []) of
                  None \<Rightarrow> crash ''RangeError'' s
                | Some p \<Rightarrow> sendMsg MsgUserInfo (mbID mb) p s)
           | None \<Rightarrow> s)
      | None \<Rightarrow> s)"

text \<open>A voice state or a channel as a message: the user, the channel, its name and its category.\<close>

definition sendVoice :: "u8 \<Rightarrow> u64 \<Rightarrow> u64 \<Rightarrow> channelData option \<Rightarrow> voice \<Rightarrow> voice" where
  "sendVoice t u ch cd s =
     (case peerVoicePayload ch (case cd of Some c \<Rightarrow> cdName c | None \<Rightarrow> [])
             (case Option.bind cd cdParent of Some k \<Rightarrow> k | None \<Rightarrow> 0) of
        None \<Rightarrow> crash ''RangeError'' s
      | Some p \<Rightarrow> sendMsg t u p s)"

definition memberUser :: "voiceStateData \<Rightarrow> userData option" where
  "memberUser vs = Option.bind (vsMember vs) mbUser"

definition isBot :: "voiceStateData \<Rightarrow> bool" where
  "isBot vs = (case memberUser vs of Some ud \<Rightarrow> udBot ud | None \<Rightarrow> False)"

definition isOwn :: "u64 \<Rightarrow> voiceStateData \<Rightarrow> bool" where
  "isOwn self vs = (case memberUser vs of Some ud \<Rightarrow> udID ud = self | None \<Rightarrow> False)"

text \<open>The handler of \<^verbatim>\<open>voiceStateUpdate\<close>: the channel before, the state after and its channel's data.\<close>

definition onVoiceUpdate :: "u64 \<Rightarrow> u64 option \<Rightarrow> voiceStateData \<Rightarrow> channelData option \<Rightarrow> voice \<Rightarrow> voice" where
  "onVoiceUpdate self old vs cd s =
     (if isBot vs \<and> isOwn self vs then s
      else if old \<noteq> vsChannel vs
        then let s1 = sendVoice MsgVoiceState (vsUser vs) (case vsChannel vs of Some ch \<Rightarrow> ch | None \<Rightarrow> 0) cd s
             in if vsChannel vs \<noteq> None \<and> \<not> vcDown s1 then sendUserInfo (vsMember vs) s1 else s1
        else s)"

section \<open>Start\<close>

record guildData =
  gdChannels :: "channelData list"
  gdVoice :: "voiceStateData list"

definition syncChannel :: "channelData \<Rightarrow> voice \<Rightarrow> voice" where
  "syncChannel cd s =
     (if cdType cd = 2 \<or> cdType cd = 13 then sendVoice MsgChannelList 0 (cdID cd) (Some cd) s else s)"

definition syncVoice :: "channelData list \<Rightarrow> voiceStateData \<Rightarrow> voice \<Rightarrow> voice" where
  "syncVoice cds vs s =
     (case vsChannel vs of
        Some ch \<Rightarrow>
          if isBot vs then s
          else let s1 = sendVoice MsgVoiceState (vsUser vs) ch (find (\<lambda>cd. cdID cd = ch) cds) s
               in if vcDown s1 then s1 else sendUserInfo (vsMember vs) s1
      | None \<Rightarrow> s)"

text \<open>An exception ends \<^verbatim>\<open>main\<close>, so a loop stops when the process is down.\<close>

fun untilDown :: "('a \<Rightarrow> voice \<Rightarrow> voice) \<Rightarrow> 'a list \<Rightarrow> voice \<Rightarrow> voice" where
  "untilDown f [] s = s"
| "untilDown f (x # xs) s = (if vcDown s then s else untilDown f xs (f x s))"

text \<open>\<^verbatim>\<open>main\<close> behind the login: the channels and voice states for a primary sidecar, then READY.\<close>

definition onReady :: "bool \<Rightarrow> guildData option \<Rightarrow> voice \<Rightarrow> voice" where
  "onReady primary gd s =
     (case gd of
        None \<Rightarrow> doAct (Exit 1) s\<lparr>vcDown := True\<rparr>
      | Some g \<Rightarrow>
          let s1 = (if primary
                then untilDown (syncVoice (gdChannels g)) (gdVoice g) (untilDown syncChannel (gdChannels g) s)
                else s)
          in sendMsg MsgReady 0 [] s1\<lparr>vcStarted := True\<rparr>)"

section \<open>The events of the process\<close>

datatype voiceEvent =
    FromBridge message
  | Wake nat bool
  | ConnError nat
  | ConnDisconnected nat
  | StartsSpeaking nat u64
  | OpusData nat u64 bytes
  | StreamClosed nat u64
  | PlayerReads
  | VoiceUpdate "u64 option" voiceStateData "channelData option"
  | ClientReady "guildData option"
  | LoginFails string
  | SocketGone
  | Signalled

text \<open>A handler runs for an event only when the code has registered it for that connection or stream.\<close>

definition voiceStep :: "discord \<Rightarrow> bool \<Rightarrow> u64 \<Rightarrow> voiceEvent \<Rightarrow> voice \<Rightarrow> voice" where
  "voiceStep dc primary self e s =
     (if vcDown s then s
      else case e of
        FromBridge msg \<Rightarrow> onIpc dc msg s
      | Wake k ok \<Rightarrow>
          if k < length (vcJoins s)
          then case joinWake dc ok (vcJoins s ! k) s of (pc, s1) \<Rightarrow> s1\<lparr>vcJoins := (vcJoins s1)[k := pc]\<rparr>
          else s
      | ConnError c \<Rightarrow> if c \<in> set (vcConns s) then leaveChannel dc s else s
      | ConnDisconnected c \<Rightarrow> if c \<in> set (vcWatched s) then leaveChannel dc s else s
      | StartsSpeaking c u \<Rightarrow> if c \<in> set (vcListening s) then onSpeaking c u s else s
      | OpusData c u f \<Rightarrow> if (c, u) \<in> set (vcSubs s) then onOpusData u f s else s
      | StreamClosed c u \<Rightarrow> if (c, u) \<in> set (vcSubs s) then onStreamClosed c u s else s
      | PlayerReads \<Rightarrow> s\<lparr>vcStream := map_option (streamRead (dcWant dc)) (vcStream s)\<rparr>
      | VoiceUpdate old vs cd \<Rightarrow> if primary \<and> vcStarted s then onVoiceUpdate self old vs cd s else s
      | ClientReady gd \<Rightarrow> if vcStarted s then s else onReady primary gd s
      | LoginFails err \<Rightarrow> if vcStarted s then s else crash err s
      | SocketGone \<Rightarrow> cleanup dc s
      | Signalled \<Rightarrow> cleanup dc s)"

definition voiceRun :: "discord \<Rightarrow> bool \<Rightarrow> u64 \<Rightarrow> voiceEvent list \<Rightarrow> voice" where
  "voiceRun dc primary self es = fold (voiceStep dc primary self) es voice0"

text \<open>The messages the process has written, in order.\<close>

definition sentMsgs :: "act list \<Rightarrow> message list" where
  "sentMsgs as = List.map_filter (\<lambda>a. case a of Send m \<Rightarrow> Some m | _ \<Rightarrow> None) as"

section \<open>The process is silent\<close>

text \<open>What an act would be that carries audio, or subscribes to some.\<close>

definition quietMsg :: "message \<Rightarrow> bool" where
  "quietMsg m \<longleftrightarrow> fitsFrame m \<and> msgType m \<notin> {MsgAudioFromDiscord, MsgUserJoin, MsgUserLeave}"

fun quiet :: "act \<Rightarrow> bool" where
  "quiet (Send m) = quietMsg m"
| "quiet (Subscribe c p) = False"
| "quiet (Play p) = False"
| "quiet (Receive c u) = False"
| "quiet _ = True"

definition silent :: "voice \<Rightarrow> bool" where
  "silent s \<longleftrightarrow> vcStream s = None \<and> vcListening s = [] \<and> vcSubs s = [] \<and> list_all quiet (vcActs s)"

named_theorems silence

lemma silent_update [simp]:
  "silent (s\<lparr>vcChannel := a\<rparr>) = silent s" "silent (s\<lparr>vcConn := b\<rparr>) = silent s" "silent (s\<lparr>vcPlayer := c\<rparr>) = silent s"
  "silent (s\<lparr>vcNick := d\<rparr>) = silent s" "silent (s\<lparr>vcFrames := e\<rparr>) = silent s" "silent (s\<lparr>vcLeaving := f\<rparr>) = silent s"
  "silent (s\<lparr>vcJoins := g\<rparr>) = silent s" "silent (s\<lparr>vcConns := h\<rparr>) = silent s" "silent (s\<lparr>vcWatched := i\<rparr>) = silent s"
  "silent (s\<lparr>vcStarted := j\<rparr>) = silent s" "silent (s\<lparr>vcDown := k\<rparr>) = silent s"
  by (simp_all add: silent_def)

lemma silent_doAct [simp]: "silent (doAct a s) \<longleftrightarrow> quiet a \<and> silent s"
  by (auto simp: silent_def doAct_def)

lemma silent_crash [silence]: "silent s \<Longrightarrow> silent (crash e s)"
  by (simp add: crash_def)

lemma silent_sendMsg [silence]:
  "silent s \<Longrightarrow> t \<notin> {MsgAudioFromDiscord, MsgUserJoin, MsgUserLeave} \<Longrightarrow> silent (sendMsg t u p s)"
  by (simp add: sendMsg_def silence quietMsg_def peerWrite_frame split: option.split)

lemma silent_leaveChannel [silence]: "silent s \<Longrightarrow> silent (leaveChannel dc s)"
  by (auto simp: leaveChannel_def restoreNick_def dropStream_def dropPlayer_def dropConn_def Let_def silent_def doAct_def
      split: option.split guildView.split)

lemma silent_cleanup [silence]: "silent s \<Longrightarrow> silent (cleanup dc s)"
  by (simp add: cleanup_def silence)

lemma silent_joinConnect [silence]: "silent s \<Longrightarrow> silent (snd (joinConnect ch n s))"
  by (simp add: joinConnect_def Let_def)

lemma silent_joinAttempt [silence]: "silent s \<Longrightarrow> silent (snd (joinAttempt dc ch n s))"
  by (simp add: joinAttempt_def silence)

lemma silent_joinGuild [silence]: "silent s \<Longrightarrow> silent (snd (joinGuild dc ch s))"
  by (simp add: joinGuild_def silence)

lemma silent_joinStart [silence]: "silent s \<Longrightarrow> silent (snd (joinStart dc ch s))"
  by (simp add: joinStart_def silence)

lemma silent_joinWake [silence]: "silent s \<Longrightarrow> silent (snd (joinWake dc ok pc s))"
  by (cases pc) (simp_all add: joinWake_def silence joinReady_def joinFailed_def joinRest_def joinScope_def Let_def msg_types)

lemma silent_onIpc [silence]: "silent s \<Longrightarrow> silent (onIpc dc msg s)"
proof -
  assume s: "silent s"
  then have "vcStream s = None" by (simp add: silent_def)
  moreover have "silent (startJoin dc ch s)" for ch
    using silent_joinStart [OF s, of dc ch] by (simp add: startJoin_def case_prod_unfold)
  moreover have "silent (updateBotNickname dc p s)" for p
    using s by (auto simp: updateBotNickname_def silence Let_def split: option.split guildView.split)
  ultimately show ?thesis
    using s by (auto simp: onIpc_def silence Let_def split: option.split bool.split)
qed

lemma silent_sendVoice [silence]: "silent s \<Longrightarrow> t \<in> {MsgVoiceState, MsgChannelList} \<Longrightarrow> silent (sendVoice t u ch cd s)"
  by (auto simp: sendVoice_def msg_types intro!: silence split: option.split)

lemma silent_sendUserInfo [silence]: "silent s \<Longrightarrow> silent (sendUserInfo mo s)"
  by (auto simp: sendUserInfo_def msg_types intro!: silence split: option.split)

lemma silent_untilDown: "silent s \<Longrightarrow> (\<And>x s. silent s \<Longrightarrow> silent (f x s)) \<Longrightarrow> silent (untilDown f xs s)"
  by (induction f xs s rule: untilDown.induct) simp_all

lemma silent_onReady [silence]: "silent s \<Longrightarrow> silent (onReady primary gd s)"
proof -
  assume s: "silent s"
  have "silent (syncChannel cd t)" if "silent t" for cd t
    using that by (simp add: syncChannel_def silence)
  moreover have "silent (syncVoice cds vs t)" if "silent t" for cds vs t
    using that by (simp add: syncVoice_def silence Let_def split: option.split)
  ultimately have "silent (untilDown (syncVoice cds) vss (untilDown syncChannel cds s))" for cds vss
    using s by (intro silent_untilDown)
  then show ?thesis
    using s by (auto simp: onReady_def Let_def msg_types intro!: silence split: option.split)
qed

lemma silent_step: "silent s \<Longrightarrow> silent (voiceStep dc primary self e s)"
proof -
  assume s: "silent s"
  then have none: "vcListening s = []" "vcSubs s = []" "vcStream s = None" by (simp_all add: silent_def)
  show ?thesis
  proof (cases e)
    case (Wake k ok)
    then show ?thesis using silent_joinWake [OF s, of dc ok] s by (simp add: voiceStep_def case_prod_unfold)
  next
    case PlayerReads
    then show ?thesis using s none by (simp add: voiceStep_def silent_def)
  next
    case (VoiceUpdate old vs cd)
    then show ?thesis using s by (auto simp: voiceStep_def onVoiceUpdate_def Let_def intro!: silence)
  qed (use s none in \<open>simp_all add: voiceStep_def silence\<close>)
qed

interpretation silent_machine: event_machine "voiceStep dc primary self" silent for dc primary self
  by unfold_locales (rule silent_step)

lemma silent_run: "silent (voiceRun dc primary self es)"
  unfolding voiceRun_def by (rule silent_machine.run_inv) (simp add: silent_def voice0_def)

lemma sentMsgs_set: "m \<in> set (sentMsgs as) \<longleftrightarrow> Send m \<in> set as"
  by (induction as) (auto simp: sentMsgs_def List.map_filter_simps split: act.splits)

text \<open>What the socket carries to the bridge.\<close>

definition writtenBytes :: "act list \<Rightarrow> bytes" where
  "writtenBytes as = concat (map (\<lambda>m. case peerWrite m of None \<Rightarrow> [] | Some bs \<Rightarrow> bs) (sentMsgs as))"

lemma peerFrames_many: "list_all fitsFrame ms \<Longrightarrow> peerFrames (concat (map encodeMessage ms)) = (ms, [])"
  by (induction ms) (simp_all add: peerFrames_Nil peerFrames_encode)

lemma writtenBytes_read:
  assumes "list_all quiet as"
  shows "fst (readAll now (peerConn (writtenBytes as))) = sentMsgs as"
proof -
  have fits: "fitsFrame m" if "m \<in> set (sentMsgs as)" for m
    using that assms by (auto simp: sentMsgs_set list_all_iff quietMsg_def)
  have "(case peerWrite m of None \<Rightarrow> [] | Some bs \<Rightarrow> bs) = encodeMessage m" if "m \<in> set (sentMsgs as)" for m
    using fits [OF that] by (auto simp: peerWrite_frame split: option.split) (metis peerWrite_frame option.distinct(1))
  then have "writtenBytes as = concat (map encodeMessage (sentMsgs as))"
    by (simp add: writtenBytes_def cong: map_cong)
  then show ?thesis
    using peerFrames_many [of "sentMsgs as"] fits by (simp add: readAll_peerFrames list_all_iff)
qed

text \<open>
  C5: The sidecar never passes on audio. The code behind the loop of \<^verbatim>\<open>joinChannel\<close> names a constant of the loop's
  body, so every join that succeeds ends in a \<^verbatim>\<open>ReferenceError\<close>: whatever happens, no player is subscribed, no
  speaker is received, frames from the bridge have no stream to go to, and what the bridge reads from the socket,
  which is exactly what was sent, holds no audio frame, no speaker that joins and none that leaves.
\<close>

theorem sidecar_silent:
  "let s = voiceRun dc primary self es; ms = fst (readAll now (peerConn (writtenBytes (vcActs s))))
   in ms = sentMsgs (vcActs s) \<and> msgType ` set ms \<inter> {MsgAudioFromDiscord, MsgUserJoin, MsgUserLeave} = {} \<and>
      vcStream s = None \<and> (\<forall>c p. Subscribe c p \<notin> set (vcActs s)) \<and> (\<forall>c u. Receive c u \<notin> set (vcActs s))"
proof -
  let ?s = "voiceRun dc primary self es"
  have q: "list_all quiet (vcActs ?s)" and none: "vcStream ?s = None"
    using silent_run [of dc primary self es] by (simp_all add: silent_def)
  have "Subscribe c p \<notin> set (vcActs ?s)" "Receive c u \<notin> set (vcActs ?s)" for c p u
    using q quiet.simps(2,4) unfolding list_all_iff by blast+
  moreover have "quietMsg m" if "m \<in> set (sentMsgs (vcActs ?s))" for m
    using that q by (auto simp: sentMsgs_set list_all_iff)
  then have "msgType ` set (sentMsgs (vcActs ?s)) \<inter> {MsgAudioFromDiscord, MsgUserJoin, MsgUserLeave} = {}"
    unfolding quietMsg_def by fastforce
  ultimately show ?thesis
    using none writtenBytes_read [OF q, of now] unfolding Let_def by simp
qed

section \<open>Joins\<close>

text \<open>How many times a call of \<^verbatim>\<open>joinChannel\<close> can still be suspended.\<close>

fun joinRank :: "joinPc \<Rightarrow> nat" where
  "joinRank (JSettle ch) = 10"
| "joinRank (JStale ch n) = 3 * (3 - n) + 3"
| "joinRank (JEnters ch n c) = 3 * (3 - n) + 2"
| "joinRank (JBackoff ch n) = 3 * (3 - n) + 1"
| "joinRank JDone = 0"

fun joinTry :: "joinPc \<Rightarrow> bool" where
  "joinTry (JStale ch n) = (1 \<le> n \<and> n \<le> 3)"
| "joinTry (JEnters ch n c) = (1 \<le> n \<and> n \<le> 3)"
| "joinTry (JBackoff ch n) = (1 \<le> n \<and> n < 3)"
| "joinTry _ = True"

lemma joinRank_0 [simp]: "joinRank pc = 0 \<longleftrightarrow> pc = JDone"
  by (cases pc) simp_all

lemma joinRank_10: "joinTry pc \<Longrightarrow> joinRank pc \<le> 10"
  by (cases pc) auto

lemma joinAttempt_try: "1 \<le> n \<Longrightarrow> n \<le> 3 \<Longrightarrow> joinTry (fst (joinAttempt dc ch n s)) \<and> joinRank (fst (joinAttempt dc ch n s)) \<le> 3 * (3 - n) + 3"
  by (simp add: joinAttempt_def joinConnect_def Let_def)

lemma joinGuild_try: "joinTry (fst (joinGuild dc ch s)) \<and> joinRank (fst (joinGuild dc ch s)) \<le> 9"
  using joinAttempt_try [of 1 dc ch s] by (simp add: joinGuild_def)

lemma joinStart_try: "joinTry (fst (joinStart dc ch s))"
  using joinGuild_try [of dc ch s] by (simp add: joinStart_def)

lemma joinWake_try:
  assumes "joinTry pc"
  shows "joinTry (fst (joinWake dc ok pc s)) \<and> (pc \<noteq> JDone \<longrightarrow> joinRank (fst (joinWake dc ok pc s)) < joinRank pc)"
proof (cases pc)
  case (JSettle ch)
  then show ?thesis using joinGuild_try [of dc ch s] by (simp add: joinWake_def)
next
  case (JBackoff ch n)
  then show ?thesis using joinAttempt_try [of "Suc n" dc ch s] assms by (fastforce simp: joinWake_def)
qed (use assms in \<open>auto simp: joinWake_def joinConnect_def joinReady_def joinFailed_def Let_def\<close>)

text \<open>No handler touches the suspended calls.\<close>

named_theorems keepsJoins

lemma joins_update [simp]: "vcJoins (doAct a s) = vcJoins s"
  by (simp add: doAct_def)

lemma joins_sendMsg [keepsJoins]: "vcJoins (sendMsg t u p s) = vcJoins s"
  by (simp add: sendMsg_def crash_def split: option.split)

lemma joins_leaveChannel [keepsJoins]: "vcJoins (leaveChannel dc s) = vcJoins s"
  by (simp add: leaveChannel_def restoreNick_def dropStream_def dropPlayer_def dropConn_def Let_def
      split: option.split guildView.split)

lemma joins_joinAttempt [keepsJoins]: "vcJoins (snd (joinAttempt dc ch n s)) = vcJoins s"
  by (simp add: joinAttempt_def joinConnect_def Let_def)

lemma joins_joinGuild [keepsJoins]: "vcJoins (snd (joinGuild dc ch s)) = vcJoins s"
  by (simp add: joinGuild_def keepsJoins)

lemma joins_joinWake [keepsJoins]: "vcJoins (snd (joinWake dc ok pc s)) = vcJoins s"
  by (cases pc) (simp_all add: joinWake_def keepsJoins joinConnect_def joinReady_def joinFailed_def joinRest_def Let_def split: option.split)

lemma joins_joinStart [keepsJoins]: "vcJoins (snd (joinStart dc ch s)) = vcJoins s"
  by (simp add: joinStart_def keepsJoins)

lemma joins_sendVoice [keepsJoins]: "vcJoins (sendVoice t u ch cd s) = vcJoins s"
  by (simp add: sendVoice_def keepsJoins crash_def split: option.split)

lemma joins_sendUserInfo [keepsJoins]: "vcJoins (sendUserInfo mo s) = vcJoins s"
  by (simp add: sendUserInfo_def keepsJoins crash_def split: option.split)

lemma joins_untilDown: "(\<And>x s. vcJoins (f x s) = vcJoins s) \<Longrightarrow> vcJoins (untilDown f xs s) = vcJoins s"
  by (induction f xs s rule: untilDown.induct) simp_all

lemma joins_onReady [keepsJoins]: "vcJoins (onReady primary gd s) = vcJoins s"
proof -
  have "vcJoins (syncChannel cd t) = vcJoins t" "vcJoins (syncVoice cds vs t) = vcJoins t" for cd cds vs t
    by (simp_all add: syncChannel_def syncVoice_def keepsJoins Let_def split: option.split)
  then show ?thesis by (simp add: onReady_def keepsJoins joins_untilDown Let_def split: option.split)
qed

text \<open>What one event does to them: a message may add one, a wake-up moves one.\<close>

lemma joins_step:
  "vcJoins (voiceStep dc primary self e s) =
     (case e of
        Wake k ok \<Rightarrow> if vcDown s then vcJoins s else (vcJoins s)[k := fst (joinWake dc ok (vcJoins s ! k) s)]
      | FromBridge msg \<Rightarrow>
          (if \<not> vcDown s \<and> msgType msg = MsgJoinChannel \<and> readChannelId (msgPayload msg) \<noteq> None
           then vcJoins s @ [fst (joinStart dc (the (readChannelId (msgPayload msg))) s)] else vcJoins s)
      | _ \<Rightarrow> vcJoins s)"
proof (cases e)
  case (FromBridge msg)
  have "vcJoins (updateBotNickname dc p s) = vcJoins s" for p
    by (simp add: updateBotNickname_def crash_def Let_def split: option.split guildView.split)
  then show ?thesis
    by (auto simp: FromBridge voiceStep_def onIpc_def keepsJoins cleanup_def startJoin_def msg_types case_prod_unfold Let_def
        split: option.split bool.split)
qed (simp_all add: voiceStep_def keepsJoins cleanup_def crash_def onSpeaking_def onOpusData_def onStreamClosed_def onVoiceUpdate_def
      list_update_beyond case_prod_unfold Let_def)

lemma joinTry_step:
  assumes "list_all joinTry (vcJoins s)"
  shows "list_all joinTry (vcJoins (voiceStep dc primary self e s))"
proof (cases e)
  case (Wake k ok)
  show ?thesis
  proof (cases "k < length (vcJoins s)")
    case True
    then have "joinTry (vcJoins s ! k)" using assms by (simp add: list_all_length)
    then have "joinTry (fst (joinWake dc ok (vcJoins s ! k) s))" using joinWake_try by blast
    then show ?thesis
      using assms by (auto simp: joins_step Wake list_all_iff dest!: subsetD [OF set_update_subset_insert])
  qed (use assms in \<open>simp add: joins_step Wake list_update_beyond\<close>)
qed (use assms joinStart_try in \<open>simp_all add: joins_step\<close>)

interpretation try_machine: event_machine "voiceStep dc primary self" "\<lambda>s. list_all joinTry (vcJoins s)" for dc primary self
  by unfold_locales (rule joinTry_step)

lemma down_stays: "vcDown s \<Longrightarrow> voiceStep dc primary self e s = s"
  by (simp add: voiceStep_def)

lemma down_run: "vcDown s \<Longrightarrow> fold (voiceStep dc primary self) es s = s"
  by (induction es) (simp_all add: down_stays)

definition wakes :: "nat \<Rightarrow> voiceEvent \<Rightarrow> bool" where
  "wakes k e \<longleftrightarrow> (case e of Wake j ok \<Rightarrow> j = k | _ \<Rightarrow> False)"

lemma rank_step:
  assumes "list_all joinTry (vcJoins s)" and k: "k < length (vcJoins s)" and up: "\<not> vcDown s"
  shows "k < length (vcJoins (voiceStep dc primary self e s)) \<and>
    joinRank (vcJoins (voiceStep dc primary self e s) ! k) \<le> joinRank (vcJoins s ! k) - (if wakes k e then 1 else 0)"
proof (cases e)
  case (Wake j ok)
  have "joinTry (vcJoins s ! k)" using assms by (simp add: list_all_length)
  then have "joinRank (fst (joinWake dc ok (vcJoins s ! k) s)) \<le> joinRank (vcJoins s ! k) - 1"
    using joinWake_try [of "vcJoins s ! k" dc ok s] by (cases "vcJoins s ! k = JDone") (auto simp: joinWake_def)
  then show ?thesis using k up by (simp add: joins_step Wake wakes_def nth_list_update)
qed (use k in \<open>simp_all add: joins_step wakes_def nth_append\<close>)

lemma rank_run:
  assumes "list_all joinTry (vcJoins s)" and "k < length (vcJoins s)"
  shows "vcDown (fold (voiceStep dc primary self) es s) \<or>
    joinRank (vcJoins (fold (voiceStep dc primary self) es s) ! k) \<le> joinRank (vcJoins s ! k) - length (filter (wakes k) es)"
  using assms
proof (induction es arbitrary: s)
  case (Cons e es)
  let ?t = "voiceStep dc primary self e s"
  show ?case
  proof (cases "vcDown s")
    case True
    then show ?thesis by (simp add: down_stays down_run)
  next
    case False
    have t: "k < length (vcJoins ?t)" "joinRank (vcJoins ?t ! k) \<le> joinRank (vcJoins s ! k) - (if wakes k e then 1 else 0)"
      using rank_step [OF Cons.prems False] by auto
    from Cons.IH [OF joinTry_step [OF Cons.prems(1)] t(1)] t(2) show ?thesis by auto
  qed
qed simp

text \<open>
  C19: Every call of \<^verbatim>\<open>joinChannel\<close> ends: from any point of any run, once its timers and waits have come back ten
  times it is done, whatever else happens in between, unless the process is gone.
\<close>

theorem sidecar_join_ends:
  assumes "k < length (vcJoins (voiceRun dc primary self es))" and "length (filter (wakes k) es') \<ge> 10"
  shows "vcDown (voiceRun dc primary self (es @ es')) \<or> vcJoins (voiceRun dc primary self (es @ es')) ! k = JDone"
proof -
  let ?s = "voiceRun dc primary self es"
  have tries: "list_all joinTry (vcJoins ?s)"
    unfolding voiceRun_def by (rule try_machine.run_inv) (simp add: voice0_def)
  have "joinRank (vcJoins ?s ! k) \<le> 10"
    using tries assms(1) joinRank_10 by (simp add: list_all_length)
  then show ?thesis
    using rank_run [OF tries assms(1), of dc primary self es'] assms(2) by (auto simp: voiceRun_def)
qed

text \<open>
  C20: How a call of \<^verbatim>\<open>joinChannel\<close> ends when it comes back: it has its connection and throws; or the third try has
  failed, and then the connection is destroyed, the channel forgotten and the bridge told by a LEAVE_CHANNEL; or the
  guild is gone, and then the bridge is told nothing.
\<close>

theorem sidecar_join_outcome:
  assumes "\<not> vcDown s" and "k < length (vcJoins s)" and "vcJoins s ! k \<noteq> JDone" and "joinTry (vcJoins s ! k)"
    and "s' = voiceStep dc primary self (Wake k ok) s" and "vcJoins s' ! k = JDone"
  shows "(\<exists>ch n c. vcJoins s ! k = JEnters ch n c \<and> ok \<and> vcConn s' = Some c \<and>
       vcActs s' = vcActs s @ [NewPlayer, Thrown ''ReferenceError: connection is not defined'']) \<or>
    (\<exists>ch c. vcJoins s ! k = JEnters ch 3 c \<and> \<not> ok \<and> vcChannel s' = None \<and> vcActs s' = vcActs s @ [Destroy c, Send leaveMsg]) \<or>
    (\<exists>ch. vcJoins s ! k = JSettle ch \<and> dcGuildNow dc (vcActs s) = NoGuild \<and> vcActs s' = vcActs s)"
proof -
  have k: "fst (joinWake dc ok (vcJoins s ! k) s) = JDone" and
    acts: "vcActs s' = vcActs (snd (joinWake dc ok (vcJoins s ! k) s))" "vcConn s' = vcConn (snd (joinWake dc ok (vcJoins s ! k) s))"
      "vcChannel s' = vcChannel (snd (joinWake dc ok (vcJoins s ! k) s))"
    using assms(1,2,5,6) by (simp_all add: keepsJoins voiceStep_def case_prod_unfold)
  show ?thesis
  proof (cases "vcJoins s ! k")
    case (JEnters ch n c)
    show ?thesis
    proof (cases ok)
      case True
      then show ?thesis
        using acts by (simp add: JEnters joinWake_def joinReady_def joinRest_def joinScope_def doAct_def Let_def)
    next
      case False
      then have "n = 3" using k assms(4) by (auto simp: JEnters joinWake_def joinFailed_def Let_def split: if_splits)
      then show ?thesis
        using acts False assms(1)
        by (simp add: JEnters joinWake_def joinFailed_def doAct_def sendMsg_def peerWrite_def leaveMsg_def Let_def)
    qed
  qed (use k acts assms(3) in \<open>auto simp: joinWake_def joinGuild_def joinAttempt_def joinConnect_def Let_def split: if_splits\<close>)
qed

text \<open>Steps that destroy no connection.\<close>

definition gentle :: "voice \<Rightarrow> voice \<Rightarrow> bool" where
  "gentle s t \<longleftrightarrow> (\<exists>new. vcActs t = vcActs s @ new \<and> (\<forall>c. Destroy c \<notin> set new)) \<and> vcDown t = vcDown s"

lemma gentle_trans: "gentle s t \<Longrightarrow> gentle t u \<Longrightarrow> gentle s u"
  by (fastforce simp: gentle_def)

lemma gentle_drops: "gentle s (dropPlayer s)" "gentle s (dropStream s)" "gentle s (restoreNick dc s)"
  by (auto simp: gentle_def dropPlayer_def dropStream_def restoreNick_def doAct_def split: option.split guildView.split)

lemma gentle_leave: "vcConn s = None \<Longrightarrow> gentle s (leaveChannel dc s)"
proof (cases "vcLeaving s")
  case False
  assume none: "vcConn s = None"
  let ?s0 = "s\<lparr>vcLeaving := True\<rparr>"
  let ?s1 = "dropStream (dropPlayer ?s0)\<lparr>vcChannel := None, vcFrames := 0\<rparr>"
  have "gentle s ?s1"
    using gentle_trans [OF gentle_drops(1,2), of ?s0] by (simp add: gentle_def)
  from gentle_trans [OF this gentle_drops(3) [of _ dc]] show ?thesis
    using none False by (simp add: leaveChannel_def dropConn_def gentle_def Let_def)
qed (simp add: leaveChannel_def gentle_def)

lemma leave_channel_gone: "\<not> vcLeaving s \<Longrightarrow> vcChannel (leaveChannel dc s) = None"
  by (simp add: leaveChannel_def restoreNick_def Let_def doAct_def split: option.split guildView.split)

text \<open>
  C21: A LEAVE_CHANNEL that arrives while a join waits for its connection is lost: nothing is destroyed, and when the
  connection is ready the bot stays in the voice channel, with no channel recorded, although the bridge has
  given the slot back.
\<close>

theorem sidecar_leave_lost:
  assumes "\<not> vcDown s" and "\<not> vcLeaving s" and "vcConn s = None" and "k < length (vcJoins s)" and "vcJoins s ! k = JEnters ch n c"
    and "s' = fold (voiceStep dc primary self) [FromBridge leaveMsg, Wake k True] s"
  shows "vcConn s' = Some c \<and> vcChannel s' = None \<and> Destroy c \<notin> set (drop (length (vcActs s)) (vcActs s'))"
proof -
  let ?t = "leaveChannel dc s"
  have leave: "voiceStep dc primary self (FromBridge leaveMsg) s = ?t"
    using assms(1) by (simp add: voiceStep_def onIpc_def leaveMsg_def msg_types split: option.split)
  obtain new where t: "vcActs ?t = vcActs s @ new" "Destroy c \<notin> set new" "vcChannel ?t = None" "\<not> vcDown ?t"
    using gentle_leave [OF assms(3), of dc] leave_channel_gone [OF assms(2)] assms(1) by (auto simp: gentle_def)
  have j: "vcJoins ?t = vcJoins s" by (rule joins_leaveChannel)
  show ?thesis
    using assms(4-6) t by (simp add: leave voiceStep_def [of _ _ _ "Wake k True"] j joinWake_def joinReady_def joinRest_def joinScope_def doAct_def Let_def)
qed

section \<open>Examples\<close>

definition calmDiscord :: discord where
  "calmDiscord = \<lparr>dcGuildNow = (\<lambda>_. Me None), dcHasConn = (\<lambda>_. False), dcWant = (\<lambda>_. True)\<rparr>"

text \<open>A primary sidecar that is ready and asked to join channel 5.\<close>

definition demoJoin :: "voiceEvent list" where
  "demoJoin = [ClientReady (Some \<lparr>gdChannels = [], gdVoice = []\<rparr>), FromBridge (joinMsg 5)]"

lemma joinMsg_read: "msgType (joinMsg ch) = MsgJoinChannel" "readChannelId (msgPayload (joinMsg ch)) = Some ch"
  by (simp_all add: joinMsg_def readChannelId_def)

lemmas voice_eval = voiceRun_def voiceStep_def demoJoin_def voice0_def onReady_def onIpc_def joinMsg_read startJoin_def
  joinStart_def joinGuild_def joinAttempt_def joinConnect_def sendMsg_def peerWrite_def doAct_def calmDiscord_def
  msg_types Let_def

lemma demoJoin_waits:
  "voiceRun calmDiscord True 9 demoJoin =
     voice0\<lparr>vcChannel := Some 5, vcJoins := [JEnters 5 1 1], vcConns := [1], vcStarted := True,
       vcActs := [Send \<lparr>msgType = MsgReady, msgUserID = 0, msgPayload = []\<rparr>, Connect 5]\<rparr>"
  by (simp add: voice_eval)

theorem sidecar_join_ends_witness:
  "let s = voiceRun calmDiscord True 9 (demoJoin @ replicate 10 (Wake 0 False)) in vcDown s \<or> vcJoins s ! 0 = JDone"
  unfolding Let_def
  by (rule sidecar_join_ends [of 0]) (simp_all add: demoJoin_waits wakes_def)

theorem sidecar_join_outcome_witness:
  "let s = voiceRun calmDiscord True 9 demoJoin; s' = voiceStep calmDiscord True 9 (Wake 0 True) s
   in vcConn s' = Some 1 \<and> vcActs s' = vcActs s @ [NewPlayer, Thrown ''ReferenceError: connection is not defined'']"
proof -
  have "vcJoins (voiceStep calmDiscord True 9 (Wake 0 True) (voiceRun calmDiscord True 9 demoJoin)) ! 0 = JDone"
    unfolding joins_step by (simp add: demoJoin_waits voice0_def joinWake_def joinReady_def)
  from sidecar_join_outcome [OF _ _ _ _ refl this] show ?thesis
    by (simp add: demoJoin_waits voice0_def)
qed

theorem sidecar_leave_lost_witness:
  "vcConn (fold (voiceStep calmDiscord True 9) [FromBridge leaveMsg, Wake 0 True] (voiceRun calmDiscord True 9 demoJoin)) = Some 1"
  using sidecar_leave_lost [OF _ _ _ _ _ refl, of "voiceRun calmDiscord True 9 demoJoin" 0 5 1 1 calmDiscord True 9]
  by (simp add: demoJoin_waits voice0_def)

end
