(* ===== verification/SidecarBoot.thy ===== *)
theory SidecarBoot
  imports Sidecar
begin

text \<open>
  How a sidecar reads its environment: the top of \<^verbatim>\<open>sidecar/index.mjs\<close>, the other end of the variables that
  \<^verbatim>\<open>StartSidecar\<close> appends to the bridge's own environment.
\<close>

text \<open>\<^verbatim>\<open>exec.Cmd\<close> keeps the last value of a variable.\<close>

definition envSplit :: "string \<Rightarrow> string \<times> string" where
  "envSplit kv = (takeWhile (\<lambda>c. c \<noteq> CHR ''='') kv, drop 1 (dropWhile (\<lambda>c. c \<noteq> CHR ''='') kv))"

definition envGet :: "string list \<Rightarrow> string \<Rightarrow> string option" where
  "envGet vars k = map_of (rev (map envSplit vars)) k"

text \<open>\<^verbatim>\<open>v || d\<close> of JavaScript, where an empty string counts as missing.\<close>

definition envOr :: "string option \<Rightarrow> string \<Rightarrow> string" where
  "envOr v d = (case v of Some s \<Rightarrow> if s = [] then d else s | None \<Rightarrow> d)"

record sidecarVars =
  svPrimary :: bool
  svLogLevel :: string
  svSlot :: string
  svSocket :: string
  svToken :: string
  svGuild :: string

text \<open>\<open>None\<close> when the process exits at once because the token or the guild is missing.\<close>

definition bootSidecar :: "string list \<Rightarrow> sidecarVars option" where
  "bootSidecar vars =
     (let token = envOr (envGet vars ''DISCORD_BOT_TOKEN'') []; guild = envOr (envGet vars ''DISCORD_GUILD_ID'') []
      in if token = [] \<or> guild = [] then None
         else Some \<lparr>svPrimary = (envGet vars ''SIDECAR_PRIMARY'' = Some ''true''),
                    svLogLevel = envOr (envGet vars ''SIDECAR_LOG_LEVEL'') ''info'',
                    svSlot = envOr (envGet vars ''SIDECAR_SLOT'') ''0'',
                    svSocket = envOr (envGet vars ''IPC_SOCKET_PATH'') ''/tmp/discord-voice-bridge.sock'',
                    svToken = token, svGuild = guild\<rparr>)"

lemma envGet_append: "envGet (a @ b) k = (case envGet b k of None \<Rightarrow> envGet a k | Some v \<Rightarrow> Some v)"
  by (simp add: envGet_def map_add_def split: option.split)

lemma envGet_Cons: "envGet (kv # b) k = (case envGet b k of None \<Rightarrow> if fst (envSplit kv) = k then Some (snd (envSplit kv)) else None | Some v \<Rightarrow> Some v)"
  using envGet_append [of "[kv]" b k] by (simp add: envGet_def [of "[kv]"] split_beta split: option.split)

lemma envGet_Nil [simp]: "envGet [] k = None"
  by (simp add: envGet_def)

lemma sidecarEnv_get:
  "envGet (sidecarEnv sock token guild level primary slot) ''IPC_SOCKET_PATH'' = Some sock"
  "envGet (sidecarEnv sock token guild level primary slot) ''DISCORD_BOT_TOKEN'' = Some token"
  "envGet (sidecarEnv sock token guild level primary slot) ''DISCORD_GUILD_ID'' = Some guild"
  "envGet (sidecarEnv sock token guild level primary slot) ''SIDECAR_LOG_LEVEL'' = Some level"
  "envGet (sidecarEnv sock token guild level primary slot) ''SIDECAR_SLOT'' = Some (formatNat slot)"
  "envGet (sidecarEnv sock token guild level primary slot) ''SIDECAR_PRIMARY'' = (if primary then Some ''true'' else None)"
  by (simp_all add: sidecarEnv_def envGet_Cons envSplit_def)

text \<open>
  C28: A sidecar reads from its environment what the bridge put there, whatever the bridge's own environment holds: it
  exits at once exactly when the token or the guild is empty, and it takes the bridge's socket, token, guild and
  slot. Only the role of the primary can come from elsewhere: the bridge never says false, so a variable in its
  own environment makes every sidecar a primary one.
\<close>

theorem sidecar_vars:
  "bootSidecar (own @ sidecarEnv sock token guild level primary slot) =
     (if token = [] \<or> guild = [] then None
      else Some \<lparr>svPrimary = (primary \<or> envGet own ''SIDECAR_PRIMARY'' = Some ''true''),
                 svLogLevel = (if level = [] then ''info'' else level), svSlot = formatNat slot,
                 svSocket = (if sock = [] then ''/tmp/discord-voice-bridge.sock'' else sock),
                 svToken = token, svGuild = guild\<rparr>)"
  by (simp add: bootSidecar_def envGet_append sidecarEnv_get envOr_def formatNat_nonempty)

end
