(* ===== verification/TrackLoop.thy ===== *)
theory TrackLoop
  imports Subscriber
begin

text \<open>
  The read goroutine of a track (\<^verbatim>\<open>Subscriber.trackLoop\<close>) step by step. It holds no lock: between two of its
  reads of the shared entry, the callbacks of the room may change it. A step is one access to the shared state.
\<close>

section \<open>The goroutine\<close>

text \<open>
  Where the goroutine stands: at the top of the loop, before the read of the mode, before the check of the
  input, before the write to the input, which reads it once more, or ended.
\<close>

datatype trackPc =
    AtTop
  | AtMode bytes
  | AtInput bytes
  | AtWrite "i16 list"
  | AtEnd

text \<open>What a step hands on: a frame to the handler, samples to an input, or a method call on a nil input.\<close>

datatype trackAct = ToHandler bytes | ToInput nat "i16 list" | NilInput

text \<open>\<open>pkt\<close> is what \<^verbatim>\<open>ReadRTP\<close> returns, \<open>herr\<close> says whether the handler fails, \<open>dec\<close> is the decoder.\<close>

definition trackStart :: "bool \<Rightarrow> trackPc" where
  "trackStart decoderOK = (if decoderOK then AtTop else AtEnd)"

definition trackStep ::
  "(bytes \<Rightarrow> goerror + (i16 \<times> i16) list) \<Rightarrow> (goerror + bytes) \<Rightarrow> bool \<Rightarrow> trackEntry \<Rightarrow> trackPc \<Rightarrow> trackPc \<times> trackAct list" where
  "trackStep dec pkt herr entry pc =
     (case pc of
        AtTop \<Rightarrow>
          (if teCancelled entry then (AtEnd, [])
           else case pkt of
             Inl _ \<Rightarrow> (AtEnd, [])
           | Inr payload \<Rightarrow> if payload = [] then (AtTop, []) else (AtMode payload, []))
      | AtMode payload \<Rightarrow>
          (if teMode entry = ModePassthrough
           then (if herr then AtEnd else AtTop, [ToHandler payload])
           else (AtInput payload, []))
      | AtInput payload \<Rightarrow>
          (case teInput entry of
             None \<Rightarrow> (AtTop, [])
           | Some _ \<Rightarrow>
               (case dec payload of
                  Inl _ \<Rightarrow> (AtTop, [])
                | Inr stereo \<Rightarrow> (AtWrite (map downmix stereo), [])))
      | AtWrite pcm \<Rightarrow>
          (case teInput entry of
             None \<Rightarrow> (AtEnd, [NilInput])
           | Some k \<Rightarrow> (AtTop, [ToInput k pcm]))
      | AtEnd \<Rightarrow> (AtEnd, []))"

text \<open>A round without interruption, from the top of the loop back to it.\<close>

fun trackSteps ::
  "nat \<Rightarrow> (bytes \<Rightarrow> goerror + (i16 \<times> i16) list) \<Rightarrow> (goerror + bytes) \<Rightarrow> bool \<Rightarrow> trackEntry \<Rightarrow> trackPc \<Rightarrow> trackPc \<times> trackAct list" where
  "trackSteps 0 dec pkt herr entry pc = (pc, [])"
| "trackSteps (Suc n) dec pkt herr entry pc =
     (case trackStep dec pkt herr entry pc of
        (pc1, acts) \<Rightarrow>
          if pc1 = AtTop \<or> pc1 = AtEnd then (pc1, acts)
          else (case trackSteps n dec pkt herr entry pc1 of (pc2, acts1) \<Rightarrow> (pc2, acts @ acts1)))"

text \<open>An uninterrupted round does what \<open>trackRound\<close> says.\<close>

lemma track_round_steps:
  "trackSteps 4 dec pkt herr entry AtTop =
     (case trackRound dec pkt entry of
        TrackEnds \<Rightarrow> (AtEnd, [])
      | TrackSkips \<Rightarrow> (AtTop, [])
      | TrackPasses p \<Rightarrow> (if herr then AtEnd else AtTop, [ToHandler p])
      | TrackMixes k pcm \<Rightarrow> (AtTop, [ToInput k pcm]))"
  by (cases "teMode entry"; cases "teInput entry"; cases pkt)
    (auto simp: trackRound_def trackStep_def numeral_eq_Suc split: sum.split)

section \<open>The goroutine among the callbacks\<close>

text \<open>
  The subscriber with the goroutine of entry \<open>i\<close>: a callback of the room, or a step of the goroutine. \<open>None\<close> is a
  panic, which a call on a nil input is too.
\<close>

datatype trackMove = Callback subEvent | Move "goerror + bytes" bool

record trackSys =
  tsSub :: subscriber
  tsPc :: trackPc
  tsActs :: "trackAct list"

definition trackMoves ::
  "(bytes \<Rightarrow> goerror + (i16 \<times> i16) list) \<Rightarrow> nat \<Rightarrow> trackMove \<Rightarrow> trackSys \<Rightarrow> trackSys option" where
  "trackMoves dec i mv s =
     (case mv of
        Callback ev \<Rightarrow> map_option (\<lambda>sub. s\<lparr>tsSub := sub\<rparr>) (subStep ev (Some (tsSub s)))
      | Move pkt herr \<Rightarrow>
          (case trackStep dec pkt herr (sbEntries (tsSub s) ! i) (tsPc s) of
             (pc, acts) \<Rightarrow> if NilInput \<in> set acts then None else Some (s\<lparr>tsPc := pc, tsActs := tsActs s @ acts\<rparr>)))"

text \<open>The input the goroutine has checked is still there, or it has checked none.\<close>

definition inputHeld :: "nat \<Rightarrow> trackSys \<Rightarrow> bool" where
  "inputHeld i s \<longleftrightarrow> (\<forall>pcm. tsPc s = AtWrite pcm \<longrightarrow> teInput (sbEntries (tsSub s) ! i) \<noteq> None)"

text \<open>Whether a callback takes the input of entry \<open>i\<close> away in this state.\<close>

definition takesInput :: "nat \<Rightarrow> trackSys \<Rightarrow> trackMove \<Rightarrow> bool" where
  "takesInput i s mv \<longleftrightarrow>
     (\<exists>ev sub. mv = Callback ev \<and> subStep ev (Some (tsSub s)) = Some sub \<and>
        teInput (sbEntries (tsSub s) ! i) \<noteq> None \<and> teInput (sbEntries sub ! i) = None)"

lemma inputHeld_move:
  assumes "trackMoves dec i mv s = Some t" and "inputHeld i s" and "takesInput i s mv \<Longrightarrow> \<forall>pcm. tsPc s \<noteq> AtWrite pcm"
  shows "inputHeld i t"
proof (cases mv)
  case (Callback ev)
  then show ?thesis using assms by (fastforce simp: trackMoves_def inputHeld_def takesInput_def)
next
  case (Move pkt herr)
  then show ?thesis
    using assms(1,2)
    by (cases "tsPc s") (auto simp: trackMoves_def trackStep_def inputHeld_def split: if_splits sum.splits option.splits)
qed

lemma no_nil_held: "inputHeld i s \<Longrightarrow> mv = Move pkt herr \<Longrightarrow> trackMoves dec i mv s \<noteq> None"
  by (cases "tsPc s") (auto simp: trackMoves_def trackStep_def inputHeld_def split: sum.split option.split)

lemma callback_inv:
  assumes "subInv sub"
  obtains sub' where "subStep ev (Some sub) = Some sub'" and "subInv sub'"
  using subStep_inv [of "Some sub" ev] assms by blast

lemma trackMoves_sub:
  assumes "trackMoves dec i mv s = Some t" and "subInv (tsSub s)"
  shows "subInv (tsSub t)"
proof (cases mv)
  case (Callback ev)
  then show ?thesis using assms(1) by (auto simp: trackMoves_def intro: callback_inv [OF assms(2), of ev])
qed (use assms in \<open>auto simp: trackMoves_def split: prod.splits if_splits\<close>)

text \<open>
  C6: The goroutine of a track panics only by a race: when a run of callbacks and steps panics, then at some point of
  it a callback has taken the track's input away while the goroutine stood between its check and its write.
\<close>

theorem track_panics_by_race:
  assumes "subInv (tsSub s)" and "inputHeld i s" and "foldM (trackMoves dec i) mvs s = None"
  shows "\<exists>pre mv post t pcm. mvs = pre @ mv # post \<and> foldM (trackMoves dec i) pre s = Some t \<and>
     takesInput i t mv \<and> tsPc t = AtWrite pcm"
  using assms
proof (induction mvs arbitrary: s)
  case (Cons mv mvs)
  show ?case
  proof (cases "trackMoves dec i mv s")
    case None
    then obtain ev where ev: "mv = Callback ev" using no_nil_held [OF Cons.prems(2)] by (cases mv) auto
    then show ?thesis using None by (auto simp: trackMoves_def intro: callback_inv [OF Cons.prems(1), of ev])
  next
    case (Some t)
    show ?thesis
    proof (cases "takesInput i s mv \<and> (\<exists>pcm. tsPc s = AtWrite pcm)")
      case True
      then have "mv # mvs = [] @ mv # mvs \<and> foldM (trackMoves dec i) [] s = Some s" by simp
      then show ?thesis using True by blast
    next
      case False
      then have "inputHeld i t" using inputHeld_move [OF Some Cons.prems(2)] by blast
      with Cons.IH [OF trackMoves_sub [OF Some Cons.prems(1)]] Cons.prems(3) Some
      obtain pre mv' post u pcm where "mvs = pre @ mv' # post" "foldM (trackMoves dec i) pre t = Some u"
        "takesInput i u mv'" "tsPc u = AtWrite pcm" by auto
      then have "mv # mvs = (mv # pre) @ mv' # post \<and> foldM (trackMoves dec i) (mv # pre) s = Some u" using Some by simp
      with \<open>takesInput i u mv'\<close> \<open>tsPc u = AtWrite pcm\<close> show ?thesis by blast
    qed
  qed
qed simp

section \<open>The race\<close>

definition demoSub :: subscriber where
  "demoSub = \<lparr>sbConfig = \<lparr>lkURL = [], lkAPIKey = [], lkAPISecret = [], lkRoomName = []\<rparr>, sbRoom = Some 0, sbMuted = True,
     sbEntries = [], sbTracks = [], sbInputs = [], sbNextInput = 0, sbStopped = False\<rparr>"

definition twoTracks :: "trackMove list" where
  "twoTracks = [Callback (SubscribedEv [] ''alice'' True ''a''), Callback (SubscribedEv [] ''bob'' True ''b''),
     Move (Inr [1]) False, Move (Inr [1]) False, Move (Inr [1]) False]"

definition demoTracks :: "trackMove list \<Rightarrow> trackSys option" where
  "demoTracks mvs = foldM (trackMoves (\<lambda>_. Inr [(2, 4)]) 0) (twoTracks @ mvs) \<lparr>tsSub = demoSub, tsPc = AtTop, tsActs = []\<rparr>"

lemma demoTracks_race: "demoTracks [Callback (UnsubscribedEv [] ''b''), Move (Inr [1]) False] = None"
  by code_simp

lemma demoTracks_calm:
  "map_option tsActs (demoTracks [Move (Inr [1]) False, Callback (UnsubscribedEv [] ''b'')]) = Some [ToInput 0 [downmix (2, 4)]]"
  by code_simp

text \<open>
  The race happens: with two tracks the goroutine of the first has decoded a packet and checked its input; when the
  second track goes away just then, the first is switched to passthrough, its input is set to nil, and the
  goroutine calls a method on it. Without the callback, or with it one step later, nothing panics.
\<close>

theorem track_race_panics:
  "demoTracks [Callback (UnsubscribedEv [] ''b''), Move (Inr [1]) False] = None \<and>
   map_option tsActs (demoTracks [Move (Inr [1]) False, Callback (UnsubscribedEv [] ''b'')]) = Some [ToInput 0 [downmix (2, 4)]]"
  by (rule conjI [OF demoTracks_race demoTracks_calm])

theorem track_panics_by_race_witness:
  "\<exists>t mv pcm. takesInput 0 t mv \<and> tsPc t = AtWrite pcm"
proof -
  have "subInv demoSub"
    by (simp add: demoSub_def subInv_def subWF_def subModes_def subInp_def inputsOK_def tracked_def)
  moreover have "inputHeld 0 \<lparr>tsSub = demoSub, tsPc = AtTop, tsActs = []\<rparr>" by (simp add: inputHeld_def)
  ultimately show ?thesis
    using track_panics_by_race [OF _ _ demoTracks_race [unfolded demoTracks_def]] by fastforce
qed

end
