(* ===== verification/Renewal.thy ===== *)
theory Renewal
  imports Signaller
begin

text \<open>
  The renewal goroutine (\<^verbatim>\<open>Signaller.StartRenewal\<close>) among the other operations of the signaller. It copies the
  members under the lock and sends without it, so joins and leaves may come between.
\<close>

text \<open>\<open>rsPending\<close> are the copied members that are still to be sent; the goroutine is at its \<^verbatim>\<open>select\<close> when there are none.\<close>

record renewSys =
  rsSig :: signaller
  rsHist :: history
  rsPending :: "memberInfo list"
  rsDone :: bool

datatype renewMove =
    OtherOp signallerOp
  | TickFires
  | SendNext
  | CtxDone

definition renewMoves :: "env \<Rightarrow> renewMove \<Rightarrow> renewSys \<Rightarrow> renewSys" where
  "renewMoves env mv r =
     (case mv of
        OtherOp op \<Rightarrow> (case signallerStep env op (rsSig r, rsHist r) of (s, h) \<Rightarrow> r\<lparr>rsSig := s, rsHist := h\<rparr>)
      | TickFires \<Rightarrow>
          (if rsDone r \<or> rsPending r \<noteq> [] then r else r\<lparr>rsPending := activeMembers env (rsSig r) (rsHist r)\<rparr>)
      | SendNext \<Rightarrow>
          (case rsPending r of
             [] \<Rightarrow> r
           | info # rest \<Rightarrow> r\<lparr>rsHist := renewOne env (rsSig r) info (rsHist r), rsPending := rest\<rparr>)
      | CtxDone \<Rightarrow> (if rsPending r \<noteq> [] then r else r\<lparr>rsDone := True\<rparr>))"

definition renewRun :: "env \<Rightarrow> renewMove list \<Rightarrow> renewSys \<Rightarrow> renewSys" where
  "renewRun env mvs r = fold (renewMoves env) mvs r"

definition renewStart :: "signaller \<Rightarrow> history \<Rightarrow> renewSys" where
  "renewStart s h = \<lparr>rsSig = s, rsHist = h, rsPending = [], rsDone = False\<rparr>"

text \<open>Sending what is pending, without interruption.\<close>

lemma renewRun_sends:
  "renewRun env (replicate (length (rsPending r)) SendNext) r =
     r\<lparr>rsHist := fold (renewOne env (rsSig r)) (rsPending r) (rsHist r), rsPending := []\<rparr>"
proof (induction "rsPending r" arbitrary: r)
  case (Cons i "is")
  let ?r = "r\<lparr>rsHist := renewOne env (rsSig r) i (rsHist r), rsPending := is\<rparr>"
  have "renewRun env (replicate (length is) SendNext) ?r = ?r\<lparr>rsHist := fold (renewOne env (rsSig r)) is (rsHist ?r), rsPending := []\<rparr>"
    using Cons.hyps(1) [of ?r] by simp
  then show ?case by (simp add: renewRun_def renewMoves_def Cons.hyps(2) [symmetric])
qed (simp add: renewRun_def)

lemma renew_uninterrupted:
  "renewRun env (TickFires # replicate (glen (sgActive s)) SendNext) (renewStart s h) =
     (renewStart s h)\<lparr>rsHist := renewTick env s h\<rparr>"
proof -
  let ?r = "(renewStart s h)\<lparr>rsPending := activeMembers env s h\<rparr>"
  have "renewRun env (TickFires # replicate (glen (sgActive s)) SendNext) (renewStart s h) =
      renewRun env (replicate (length (rsPending ?r)) SendNext) ?r"
    by (simp add: renewRun_def renewMoves_def renewStart_def length_activeMembers)
  then show ?thesis unfolding renewRun_sends by (simp add: renewStart_def renewTick_def)
qed

section \<open>A leave between the copy and the send\<close>

lemma list_all2_left: "list_all2 P xs ys \<Longrightarrow> x \<in> set xs \<Longrightarrow> \<exists>y \<in> set ys. P x y"
  by (induction rule: list_all2_induct) auto

lemma list_all2_right: "list_all2 P xs ys \<Longrightarrow> y \<in> set ys \<Longrightarrow> \<exists>x \<in> set xs. P x y"
  by (induction rule: list_all2_induct) auto

lemma memberContent_nonempty: "memberContent s mxid device room t \<noteq> JObj []"
  by (simp add: memberContent_def)

text \<open>
  C37: A user who leaves the call after the renewal has copied him and before it has sent comes back as a ghost: the
  renewal sends his membership after the withdrawal and nothing withdraws it again, while the signaller no
  longer knows him, so neither a leave nor the end of the program will.
\<close>

theorem renewal_revives_left_user:
  assumes "gget (sgActive s) uid = Some info"
    and gone: "gone = renewRun env [TickFires, OtherOp (LeaveOp uid)] (renewStart s h)"
    and r0: "r = renewRun env (replicate (glen (sgActive s)) SendNext) gone"
  shows "gget (sgActive (rsSig r)) uid = None \<and> rsPending r = [] \<and>
    (\<exists>sent t. rsHist r = rsHist gone @ sent \<and>
       Hs (HsSendState (miMxid info) (miRoomID info) callMemberEventType (miStateKey info)
         (memberContent s (miMxid info) (miDeviceID info) (miRoomID info) t)) \<in> set sent \<and>
       Hs (HsSendState (miMxid info) (miRoomID info) callMemberEventType (miStateKey info) (JObj [])) \<notin> set sent)"
proof -
  let ?is = "activeMembers env s h"
  have pend: "rsPending gone = ?is" and active: "gget (sgActive (rsSig gone)) uid = None" and cfg: "sgConfig (rsSig gone) = sgConfig s"
    using LeaveCall_active [of env uid s h uid] LeaveCall_config [of env uid s h]
    by (simp_all add: gone renewRun_def renewMoves_def renewStart_def case_prod_unfold)
  have r: "r = gone\<lparr>rsHist := fold (renewOne env (rsSig gone)) ?is (rsHist gone), rsPending := []\<rparr>"
    using renewRun_sends [of env gone] by (simp add: r0 pend length_activeMembers)
  have content: "memberContent (rsSig gone) = memberContent s"
    using cfg by (simp add: memberContent_def fun_eq_iff)
  let ?p = "\<lambda>i e. \<exists>t. e = Hs (HsSendState (miMxid i) (miRoomID i) callMemberEventType (miStateKey i)
        (memberContent s (miMxid i) (miDeviceID i) (miRoomID i) t))"
  obtain hs where hs: "fold (renewOne env (rsSig gone)) ?is (rsHist gone) = rsHist gone @ hs" "list_all2 ?p ?is hs"
    using fold_renewOne [of env "rsSig gone" ?is "rsHist gone"] by (auto simp: content)
  have "info \<in> set ?is" using assms(1) by (auto simp: set_activeMembers)
  then obtain t where "Hs (HsSendState (miMxid info) (miRoomID info) callMemberEventType (miStateKey info)
      (memberContent s (miMxid info) (miDeviceID info) (miRoomID info) t)) \<in> set hs"
    using list_all2_left [OF hs(2)] by blast
  moreover have "Hs (HsSendState a b c d (JObj [])) \<notin> set hs" for a b c d
    using list_all2_right [OF hs(2)] memberContent_nonempty by fastforce
  ultimately show ?thesis using active hs(1) by (auto simp: r)
qed

theorem renewal_revives_left_user_witness:
  "\<exists>s info. gget (sgActive s) 7 = Some info \<and>
     gget (sgActive (rsSig (renewRun calmEnv (replicate (glen (sgActive s)) SendNext)
       (renewRun calmEnv [TickFires, OtherOp (LeaveOp 7)] (renewStart s []))))) 7 = None"
proof -
  let ?i = "\<lparr>miMxid = ''@discord_7:x'', miDeviceID = ''VOICE_7'', miRoomID = ''!r'', miStateKey = ''k''\<rparr>"
  let ?s = "\<lparr>sgConfig = \<lparr>mxHomeserverURL = [], mxASToken = [], mxServerName = ''x'', mxLKJWTService = []\<rparr>,
     sgActive = [(7, ?i)], sgProfileChecked = []\<rparr>"
  have a: "gget (sgActive ?s) 7 = Some ?i" by (simp add: gget_def)
  from renewal_revives_left_user [OF a refl refl] a show ?thesis by blast
qed

end
